theory Spec2Isabelle
  imports Main "HOL-Library.Sublist"
begin

section \<open>Strings as the scripts use them\<close>

text \<open>
  JavaScript strings are modelled as \<open>string\<close>. The helpers below are the string
  methods and the small regular expressions the scripts apply to paths.
\<close>

definition or_else :: "string \<Rightarrow> string \<Rightarrow> string" where
  \<comment> \<open>\<open>s || d\<close> on strings: the empty string is falsy.\<close>
  "or_else s d = (if s = [] then d else s)"

definition strip_trailing_slash :: "string \<Rightarrow> string" where
  \<comment> \<open>\<open>s.replace(/\/$/, '')\<close>: one slash at the very end is removed.\<close>
  "strip_trailing_slash s = (if s \<noteq> [] \<and> last s = CHR ''/'' then butlast s else s)"

definition strip_leading_slash :: "string \<Rightarrow> string" where
  \<comment> \<open>\<open>s.replace(/^\//, '')\<close>\<close>
  "strip_leading_slash s = (case s of [] \<Rightarrow> [] | c # r \<Rightarrow> if c = CHR ''/'' then r else s)"

fun slashes_to_dashes :: "string \<Rightarrow> string" where
  \<comment> \<open>\<open>s.replace(/\//g, '--')\<close>\<close>
  "slashes_to_dashes [] = []"
| "slashes_to_dashes (c # r) =
     (if c = CHR ''/'' then CHR ''-'' # CHR ''-'' # slashes_to_dashes r
      else c # slashes_to_dashes r)"

definition to_lower :: "char \<Rightarrow> char" where
  \<comment> \<open>ASCII case folding, which is all the \<open>i\<close> flag does for ASCII patterns.\<close>
  "to_lower c =
     (case map_of (zip ''ABCDEFGHIJKLMNOPQRSTUVWXYZ'' ''abcdefghijklmnopqrstuvwxyz'') c of
        None \<Rightarrow> c
      | Some l \<Rightarrow> l)"

definition lower :: "string \<Rightarrow> string" where
  "lower s = map to_lower s"

definition toLowerCase :: "string \<Rightarrow> string" where
  \<comment> \<open>The string method, on code units below 256: the ASCII capitals and the Latin-1
     capitals (all of 0xC0 to 0xDE but the multiplication sign) go to their small letters.\<close>
  "toLowerCase s =
     map (\<lambda>c. case map_of
                  (zip (''ABCDEFGHIJKLMNOPQRSTUVWXYZ''
                        @ [CHR 0xC0, CHR 0xC1, CHR 0xC2, CHR 0xC3, CHR 0xC4, CHR 0xC5, CHR 0xC6,
                           CHR 0xC7, CHR 0xC8, CHR 0xC9, CHR 0xCA, CHR 0xCB, CHR 0xCC, CHR 0xCD,
                           CHR 0xCE, CHR 0xCF, CHR 0xD0, CHR 0xD1, CHR 0xD2, CHR 0xD3, CHR 0xD4,
                           CHR 0xD5, CHR 0xD6, CHR 0xD8, CHR 0xD9, CHR 0xDA, CHR 0xDB, CHR 0xDC,
                           CHR 0xDD, CHR 0xDE])
                       (''abcdefghijklmnopqrstuvwxyz''
                        @ [CHR 0xE0, CHR 0xE1, CHR 0xE2, CHR 0xE3, CHR 0xE4, CHR 0xE5, CHR 0xE6,
                           CHR 0xE7, CHR 0xE8, CHR 0xE9, CHR 0xEA, CHR 0xEB, CHR 0xEC, CHR 0xED,
                           CHR 0xEE, CHR 0xEF, CHR 0xF0, CHR 0xF1, CHR 0xF2, CHR 0xF3, CHR 0xF4,
                           CHR 0xF5, CHR 0xF6, CHR 0xF8, CHR 0xF9, CHR 0xFA, CHR 0xFB, CHR 0xFC,
                           CHR 0xFD, CHR 0xFE])) c of
            None \<Rightarrow> c
          | Some l \<Rightarrow> l) s"

definition is_space :: "char \<Rightarrow> bool" where
  \<comment> \<open>The white space and line terminators of JavaScript among the code units below 256:
     tab, line feed, vertical tab, form feed, carriage return, space, no-break space.\<close>
  "is_space c =
     (c \<in> set [CHR 0x09, CHR 0x0A, CHR 0x0B, CHR 0x0C, CHR 0x0D, CHR 0x20, CHR 0xA0])"

definition trim :: "string \<Rightarrow> string" where
  "trim s = rev (dropWhile is_space (rev (dropWhile is_space s)))"

section \<open>Parsed URLs\<close>

text \<open>
  The platform's \<open>URL\<close> class is a capability of the runtime, not code of the scripts:
  a parsed URL is a record of the fields the scripts read, and the constructor is a
  parameter \<open>string \<Rightarrow> URL option\<close>, with \<open>None\<close> where it throws.
\<close>

record URL =
  origin :: string
  hostname :: string
  pathname :: string
  search :: string
  hash :: string

type_synonym url_ctor = "string \<Rightarrow> URL option"

definition thcf_url :: "string \<Rightarrow> string \<Rightarrow> string \<Rightarrow> URL" where
  \<comment> \<open>A parsed URL of the site itself, with the given path, query and fragment.\<close>
  "thcf_url p q h =
     \<lparr>origin = ''https://www.thcf.org'', hostname = ''www.thcf.org'',
      pathname = p, search = q, hash = h\<rparr>"

section \<open>Content classifier (utils/classify-page.mjs)\<close>

datatype pattern =
    Segment string   \<comment> \<open>\<open>/^prefix[^/]+$/\<close>\<close>
  | Starts string    \<comment> \<open>\<open>/^prefix/\<close>\<close>
  | Exactly string   \<comment> \<open>\<open>/^text$/\<close>\<close>

fun test :: "pattern \<Rightarrow> string \<Rightarrow> bool" where
  "test (Segment p) s =
     (prefix p s \<and> drop (length p) s \<noteq> [] \<and> CHR ''/'' \<notin> set (drop (length p) s))"
| "test (Starts p) s = prefix p s"
| "test (Exactly p) s = (s = p)"

definition PATTERNS :: "(pattern \<times> string) list" where
  "PATTERNS =
    [(Segment ''/news/'', ''news''),
     (Starts ''/about/news'', ''news-listing''),
     (Segment ''/scholarships/'', ''scholarship''),
     (Starts ''/students/scholarships/scholarship-directory'', ''scholarship-listing''),
     (Starts ''/students/scholarships'', ''page''),
     (Starts ''/students'', ''page''),
     (Segment ''/grants/'', ''grant''),
     (Starts ''/grant-seekers/past-recipients'', ''grant-listing''),
     (Exactly ''/about/staff'', ''staff-listing''),
     (Exactly ''/about/board'', ''board-listing'')]"

fun first_match :: "(pattern \<times> string) list \<Rightarrow> string \<Rightarrow> string" where
  \<comment> \<open>The \<open>for\<close> loop of \<open>classifyPage\<close> with its \<open>return 'page'\<close> after it.\<close>
  "first_match [] s = ''page''"
| "first_match ((p, t) # rest) s = (if test p s then t else first_match rest s)"

definition classify_path :: "url_ctor \<Rightarrow> string \<Rightarrow> string" where
  \<comment> \<open>The \<open>try\<close>/\<open>catch\<close> that computes \<open>pathname\<close>.\<close>
  "classify_path parse url =
     (case parse url of
        Some u \<Rightarrow> or_else (strip_trailing_slash (pathname u)) ''/''
      | None \<Rightarrow> or_else (strip_trailing_slash url) ''/'')"

definition classifyPage :: "url_ctor \<Rightarrow> string \<Rightarrow> string" where
  "classifyPage parse url = first_match PATTERNS (classify_path parse url)"

section \<open>URL normalizer and storage key (scrape.mjs)\<close>

datatype js_error = TypeError | NavigationError

definition download_exts :: "string list" where
  \<comment> \<open>The alternatives of \<open>/\.(pdf|xlsx?|docx?|zip|png|jpg|jpeg|gif|svg|webp|mp4|mp3)$/i\<close>.\<close>
  "download_exts =
     [''pdf'', ''xls'', ''xlsx'', ''doc'', ''docx'', ''zip'', ''png'', ''jpg'', ''jpeg'',
      ''gif'', ''svg'', ''webp'', ''mp4'', ''mp3'']"

definition is_download :: "string \<Rightarrow> bool" where
  "is_download p = list_ex (\<lambda>e. suffix (CHR ''.'' # e) (lower p)) download_exts"

definition normalizeUrl :: "url_ctor \<Rightarrow> string \<Rightarrow> string option" where
  \<comment> \<open>\<open>resolve\<close> is \<open>href \<mapsto> new URL(href, BASE_URL)\<close>; \<open>None\<close> is JavaScript's \<open>null\<close>.\<close>
  "normalizeUrl resolve href =
     (case resolve href of
        None \<Rightarrow> None
      | Some url \<Rightarrow>
          if hostname url \<noteq> ''www.thcf.org'' \<and> hostname url \<noteq> ''thcf.org'' then None
          else
            let url = url\<lparr>hash := []\<rparr>;
                pathname = or_else (strip_trailing_slash (pathname url)) ''/''
            in if is_download pathname then None
               else Some (origin url @ pathname))"

definition slugFromUrl :: "url_ctor \<Rightarrow> string \<Rightarrow> js_error + string" where
  \<comment> \<open>\<open>new URL(url)\<close> throws a TypeError on a string it cannot parse.\<close>
  "slugFromUrl parse url =
     (case parse url of
        None \<Rightarrow> Inl TypeError
      | Some u \<Rightarrow>
          let pathname = or_else (strip_trailing_slash (pathname u)) ''index''
          in Inr (or_else (slashes_to_dashes (strip_leading_slash pathname)) ''index''))"

section \<open>Crawl scheduler (scrape.mjs: resume state and \<open>run\<close>)\<close>

text \<open>
  The module-level \<open>visited\<close>, \<open>queue\<close> and \<open>allUrls\<close>, and the locals \<open>seenInQueue\<close>
  and \<open>count\<close> of \<open>run\<close>, are the fields of one state record that every step returns
  updated. Two history fields that the script does not have record its effects:
  \<open>pushed\<close> lists every \<open>queue.push\<close> in order, \<open>fetched\<close> every URL the crawl loop
  marks visited and hands to \<open>scrapePage\<close>. The image set and the files written are
  left out: no step reads them back, and the blob store is taken to accept every write.
\<close>

record crawl_state =
  visited :: "string set"
  queue :: "string list"
  seenInQueue :: "string set"
  allUrls :: "(string \<times> string \<times> string) list"
  count :: nat
  pushed :: "string list"
  fetched :: "string list"

datatype nav_item =
  NavItem (item_label: string) (item_href: string) (item_children: "(string \<times> string) list")

datatype page_step = NoButton | Threw | Loaded "string list"

datatype section_view = Unreachable | Listing "string list" "nat \<Rightarrow> page_step"

text \<open>
  What the run gets from outside: the command line, the site-map file of an earlier run
  (\<open>None\<close> when it does not exist), the two URL constructors, the navigation read from
  the home page (\<open>None\<close> when that navigation throws, which ends the run), what each
  paginated section shows, and what \<open>scrapePage\<close> returns for the \<open>n\<close>-th page
  processed: \<open>None\<close> for its \<open>null\<close> (a status of 400 or more, no response, or an
  exception), otherwise the document title and the links of the page.
\<close>

record env =
  RESUME :: bool
  MAX_PAGES :: "int option"
  sitemap :: "string list option"
  resolveURL :: url_ctor
  parseURL :: url_ctor
  nav :: "nav_item list option"
  view :: "string \<Rightarrow> section_view"
  scrapePage :: "nat \<Rightarrow> string \<Rightarrow> (string \<times> string list) option"

definition BASE_URL :: string where
  "BASE_URL = ''https://www.thcf.org''"

definition initial :: crawl_state where
  "initial = \<lparr>visited = {}, queue = [], seenInQueue = {}, allUrls = [], count = 0,
              pushed = [], fetched = []\<rparr>"

definition setup_resume :: "env \<Rightarrow> crawl_state \<Rightarrow> crawl_state" where
  \<comment> \<open>The resume branch of the script's set-up function.\<close>
  "setup_resume e st =
     (if RESUME e then
        (case sitemap e of
           None \<Rightarrow> st
         | Some existing \<Rightarrow> st\<lparr>visited := visited st \<union> set existing\<rparr>)
      else st)"

definition push :: "string \<Rightarrow> crawl_state \<Rightarrow> crawl_state" where
  \<comment> \<open>\<open>queue.push(u); seenInQueue.add(u)\<close>\<close>
  "push u st = st\<lparr>queue := queue st @ [u], seenInQueue := insert u (seenInQueue st),
                  pushed := pushed st @ [u]\<rparr>"

definition enqueue_new :: "url_ctor \<Rightarrow> string \<Rightarrow> crawl_state \<Rightarrow> crawl_state" where
  \<comment> \<open>The gate of the seeds, the navigation links and the harvested links.\<close>
  "enqueue_new r link st =
     (case normalizeUrl r link of
        None \<Rightarrow> st
      | Some full \<Rightarrow>
          if full \<notin> visited st \<and> full \<notin> seenInQueue st then push full st else st)"

definition enqueue_unseen :: "url_ctor \<Rightarrow> string \<Rightarrow> crawl_state \<Rightarrow> crawl_state" where
  \<comment> \<open>The gate of pagination discovery, which does not look at \<open>visited\<close>.\<close>
  "enqueue_unseen r link st =
     (case normalizeUrl r link of
        None \<Rightarrow> st
      | Some n \<Rightarrow> if n \<notin> seenInQueue st then push n st else st)"

definition seedUrls :: "string list" where
  "seedUrls =
     [''/'', ''/donors'', ''/donors/make-a-gift'', ''/donors/planned-giving'',
      ''/fundholder-resources'', ''/professional-advisors'', ''/grant-seekers'',
      ''/grant-seekers/community-grants-program'',
      ''/grant-seekers/jelley-family-foundation-for-childrens-education'',
      ''/grant-seekers/past-recipients'', ''/students'', ''/students/scholarships'',
      ''/students/scholarships/scholarship-directory'', ''/students/youth-advisory-council'',
      ''/gala'', ''/about'', ''/about/news'', ''/about/staff'', ''/about/board'']"

definition nav_hrefs :: "nav_item \<Rightarrow> string list" where
  \<comment> \<open>The order in which the navigation loop normalizes the links of one item.\<close>
  "nav_hrefs item = item_href item # map snd (item_children item)"

definition paginatedSections :: "string list" where
  "paginatedSections =
     [BASE_URL @ ''/about/news'',
      BASE_URL @ ''/students/scholarships/scholarship-directory'']"

function click_through :: "url_ctor \<Rightarrow> (nat \<Rightarrow> page_step) \<Rightarrow> nat \<Rightarrow> crawl_state \<Rightarrow> crawl_state" where
  \<comment> \<open>\<open>while (pageNum <= 20)\<close>: a missing button or an exception ends the section.\<close>
  "click_through r pager pageNum st =
     (if pageNum \<le> 20 then
        (case pager pageNum of
           NoButton \<Rightarrow> st
         | Threw \<Rightarrow> st
         | Loaded pageLinks \<Rightarrow>
             click_through r pager (pageNum + 1) (fold (enqueue_unseen r) pageLinks st))
      else st)"
  by pat_completeness auto
termination
  by (relation "measure (\<lambda>(r, pager, pageNum, st). 21 - pageNum)") auto

definition discover :: "env \<Rightarrow> string \<Rightarrow> crawl_state \<Rightarrow> crawl_state" where
  "discover e url st =
     (case view e url of
        Unreachable \<Rightarrow> st
      | Listing pageLinks pager \<Rightarrow>
          click_through (resolveURL e) pager 2 (fold (enqueue_unseen (resolveURL e)) pageLinks st))"

definition running :: "env \<Rightarrow> crawl_state \<Rightarrow> bool" where
  \<comment> \<open>\<open>queue.length > 0 && count < MAX_PAGES\<close>; a comparison with NaN is false.\<close>
  "running e st =
     (queue st \<noteq> [] \<and> (case MAX_PAGES e of None \<Rightarrow> False | Some b \<Rightarrow> int (count st) < b))"

definition crawl_step :: "env \<Rightarrow> crawl_state \<Rightarrow> crawl_state" where
  \<comment> \<open>One iteration of the crawl loop.\<close>
  "crawl_step e st =
     (case queue st of
        [] \<Rightarrow> st
      | url # rest \<Rightarrow>
          let st = st\<lparr>queue := rest\<rparr> in
          if url \<in> visited st then st
          else
            let st = st\<lparr>visited := insert url (visited st), count := count st + 1,
                        fetched := fetched st @ [url]\<rparr>
            in case scrapePage e (count st) url of
                 None \<Rightarrow> st
               | Some (title, links) \<Rightarrow>
                   let st = fold (enqueue_new (resolveURL e)) links st
                   in st\<lparr>allUrls := allUrls st @ [(url, classifyPage (parseURL e) url, title)]\<rparr>)"

definition budget_left :: "env \<Rightarrow> crawl_state \<Rightarrow> nat" where
  "budget_left e st = (case MAX_PAGES e of None \<Rightarrow> 0 | Some b \<Rightarrow> nat (b - int (count st)))"

lemma count_push [simp]: "count (push u st) = count st"
  by (simp add: push_def)

lemma count_enqueue_new [simp]: "count (enqueue_new r l st) = count st"
  by (simp add: enqueue_new_def split: option.splits)

lemma count_fold_enqueue_new [simp]: "count (fold (enqueue_new r) ls st) = count st"
  by (induction ls arbitrary: st) simp_all

lemma crawl_step_decreases:
  assumes "running e st"
  shows "budget_left e (crawl_step e st) < budget_left e st
         \<or> (budget_left e (crawl_step e st) = budget_left e st
            \<and> length (queue (crawl_step e st)) < length (queue st))"
proof -
  from assms obtain url rest b where q: "queue st = url # rest"
    and b: "MAX_PAGES e = Some b" and lt: "int (count st) < b"
    by (auto simp: running_def neq_Nil_conv split: option.splits)
  show ?thesis
  proof (cases "url \<in> visited st")
    case True
    then show ?thesis using q b by (simp add: crawl_step_def budget_left_def)
  next
    case False
    then have "count (crawl_step e st) = count st + 1"
      using q by (simp add: crawl_step_def Let_def split: option.splits prod.splits)
    then show ?thesis using b lt by (simp add: budget_left_def)
  qed
qed

function crawl_loop :: "env \<Rightarrow> crawl_state \<Rightarrow> crawl_state" where
  "crawl_loop e st = (if running e st then crawl_loop e (crawl_step e st) else st)"
  by pat_completeness auto
termination
proof (relation "(\<lambda>(e, st). budget_left e st) <*mlex*> measure (\<lambda>(e, st). length (queue st))")
  show "wf ((\<lambda>(e, st). budget_left e st) <*mlex*> measure (\<lambda>(e, st). length (queue st)))"
    by (simp add: wf_mlex)
next
  fix e st
  assume "running e st"
  from crawl_step_decreases[OF this]
  show "((e, crawl_step e st), (e, st))
        \<in> (\<lambda>(e, st). budget_left e st) <*mlex*> measure (\<lambda>(e, st). length (queue st))"
    by (auto simp: mlex_prod_def)
qed

definition before_loop :: "env \<Rightarrow> nav_item list \<Rightarrow> crawl_state" where
  \<comment> \<open>\<open>run\<close> up to the line \<open>let count = 0\<close>.\<close>
  "before_loop e navStructure =
     (let st = setup_resume e initial;
          st = fold (enqueue_new (resolveURL e)) seedUrls st;
          st = fold (enqueue_new (resolveURL e)) (concat (map nav_hrefs navStructure)) st
      in fold (discover e) paginatedSections st)"

definition run :: "env \<Rightarrow> js_error + crawl_state" where
  "run e =
     (case nav e of
        None \<Rightarrow> Inl NavigationError
      | Some navStructure \<Rightarrow> Inr (crawl_loop e (before_loop e navStructure)))"

section \<open>Field extractors (utils/extract-fields.mjs)\<close>

text \<open>
  The extractors run inside the rendered page. The page is a capability: an element
  carries the properties the extractors read, and a document answers selector queries.
  \<open>querySelector\<close> returns \<open>None\<close> for JavaScript's \<open>null\<close>.
\<close>

datatype element = Element
  (textContent: string)
  (innerHTML: string)
  (getAttribute: "string \<Rightarrow> string option")
  (src: string)
  (alt: string)
  (nextElementSibling: "element option")
  (parentElement: "element option")
  (el_querySelector: "string \<Rightarrow> element option")

record document =
  querySelector :: "string \<Rightarrow> element option"
  querySelectorAll :: "string \<Rightarrow> element list"

definition opt_chain :: "'a option \<Rightarrow> ('a \<Rightarrow> 'b) \<Rightarrow> 'b option" where
  \<comment> \<open>\<open>x?.p\<close>: \<open>undefined\<close> when \<open>x\<close> is \<open>null\<close> or \<open>undefined\<close>.\<close>
  "opt_chain x p = map_option p x"

definition orE :: "string option \<Rightarrow> string \<Rightarrow> string" where
  \<comment> \<open>\<open>v || d\<close> where \<open>v\<close> is \<open>undefined\<close>, \<open>null\<close> or a string.\<close>
  "orE v d = (case v of None \<Rightarrow> d | Some s \<Rightarrow> if s = [] then d else s)"

definition text_of :: "element option \<Rightarrow> string option" where
  \<comment> \<open>\<open>el?.textContent?.trim()\<close>\<close>
  "text_of el = opt_chain (opt_chain el textContent) trim"

record image =
  img_src :: string
  img_alt :: string

definition content_images :: "document \<Rightarrow> image list" where
  \<comment> \<open>\<open>[...document.querySelectorAll('article img, main img')].map(...)\<close>\<close>
  "content_images doc =
     map (\<lambda>img. \<lparr>img_src = src img, img_alt = or_else (alt img) []\<rparr>)
       (querySelectorAll doc ''article img, main img'')"

record news =
  news_title :: string
  news_date :: string
  news_author :: string
  news_category :: string
  news_featuredImage :: string
  news_body :: string
  news_bodyText :: string
  news_images :: "image list"

definition extractNews :: "document \<Rightarrow> news" where
  \<open>extractNews doc =
     (let title = orE (text_of (querySelector doc ''h1'')) [];
          body = orE (opt_chain (querySelector doc
                   ''article, .entry-content, .post-content, main .content, main'') innerHTML) [];
          bodyText = orE (text_of (querySelector doc
                   ''article, .entry-content, .post-content, main .content, main'')) [];
          dateEl = querySelector doc ''time, .date, .post-date, [datetime]'';
          date = orE (Option.bind dateEl (\<lambda>el. getAttribute el ''datetime''))
                   (orE (text_of dateEl) []);
          authorEl = querySelector doc ''.author, .byline, [rel="author"]'';
          author = orE (text_of authorEl) [];
          categoryEl = querySelector doc ''.category, .tag, .post-category'';
          category = orE (text_of categoryEl) [];
          featuredImg = querySelector doc ''article img, .post-content img, .hero img, main img'';
          featuredImage = orE (opt_chain featuredImg src) [];
          images = content_images doc
      in \<lparr>news_title = title, news_date = date, news_author = author,
          news_category = category, news_featuredImage = featuredImage,
          news_body = body, news_bodyText = bodyText, news_images = images\<rparr>)\<close>

record labelled =
  lab_title :: string
  lab_fields :: "string \<rightharpoonup> string"
  lab_body :: string
  lab_bodyText :: string
  lab_images :: "image list"

definition label_of :: "element \<Rightarrow> string" where
  \<comment> \<open>\<open>el.textContent.trim().toLowerCase().replace(/:$/, '')\<close>\<close>
  "label_of el =
     (let l = toLowerCase (trim (textContent el))
      in if l \<noteq> [] \<and> last l = CHR '':'' then butlast l else l)"

definition value_of :: "element \<Rightarrow> string" where
  "value_of el =
     orE (text_of (nextElementSibling el))
       (orE (text_of (Option.bind (parentElement el) nextElementSibling)) [])"

definition add_field :: "element \<Rightarrow> (string \<rightharpoonup> string) \<Rightarrow> (string \<rightharpoonup> string)" where
  \<comment> \<open>The body of the \<open>forEach\<close> that fills \<open>fields\<close>. Assigning a string to the key
     \<open>__proto__\<close> of a plain object stores nothing.\<close>
  "add_field el flds =
     (let label = label_of el; v = value_of el
      in if v \<noteq> [] \<and> label \<noteq> [] then
           (if label = ''__proto__'' then flds else flds(label \<mapsto> v))
         else flds)"

definition extractLabelled :: "document \<Rightarrow> labelled" where
  \<comment> \<open>\<open>extractScholarship\<close> and \<open>extractGrant\<close>, which have the same body.\<close>
  "extractLabelled doc =
     (let title = orE (text_of (querySelector doc ''h1'')) [];
          content = querySelector doc ''article, main .content, main'';
          body = orE (opt_chain content innerHTML) [];
          bodyText = orE (text_of content) [];
          flds = fold add_field
                     (querySelectorAll doc ''dt, th, strong, b, label, .field-label'') Map.empty;
          images = content_images doc
      in \<lparr>lab_title = title, lab_fields = flds, lab_body = body,
          lab_bodyText = bodyText, lab_images = images\<rparr>)"

definition extractScholarship :: "document \<Rightarrow> labelled" where
  "extractScholarship = extractLabelled"

definition extractGrant :: "document \<Rightarrow> labelled" where
  "extractGrant = extractLabelled"

record staff_member =
  sm_name :: string
  sm_jobTitle :: string
  sm_photo :: string
  sm_email :: string
  sm_phone :: string

record staff_listing =
  sl_members :: "staff_member list"
  sl_body :: string

definition staff_card :: "element \<Rightarrow> staff_member list \<Rightarrow> staff_member list" where
  \<comment> \<open>The body of \<open>cards.forEach\<close> in \<open>extractStaffListing\<close>.\<close>
  \<open>staff_card cardEl members =
     (let name = orE (text_of (el_querySelector cardEl ''h2, h3, h4, .name'')) [];
          titleEl = el_querySelector cardEl ''.title, .position, .role, p'';
          jobTitle = orE (text_of titleEl) [];
          photo = orE (opt_chain (el_querySelector cardEl ''img'') src) [];
          email = orE (text_of (el_querySelector cardEl ''a[href^="mailto:"]'')) [];
          phone = orE (text_of (el_querySelector cardEl ''a[href^="tel:"]'')) []
      in if name \<noteq> [] then
           members @ [\<lparr>sm_name = name, sm_jobTitle = jobTitle, sm_photo = photo,
                        sm_email = email, sm_phone = phone\<rparr>]
         else members)\<close>

definition extractStaffListing :: "document \<Rightarrow> staff_listing" where
  \<open>extractStaffListing doc =
     (let cards = querySelectorAll doc
                    ''.staff-card, .team-member, .card, [class*="staff"], [class*="team"]'';
          members = (if length cards > 0 then fold staff_card cards [] else []);
          body = orE (opt_chain (querySelector doc ''main'') innerHTML) []
      in \<lparr>sl_members = members, sl_body = body\<rparr>)\<close>

record board_member =
  bm_name :: string
  bm_role :: string
  bm_photo :: string

record board_listing =
  bl_members :: "board_member list"
  bl_body :: string

definition board_card :: "element \<Rightarrow> board_member list \<Rightarrow> board_member list" where
  "board_card cardEl members =
     (let name = orE (text_of (el_querySelector cardEl ''h2, h3, h4, .name'')) [];
          titleEl = el_querySelector cardEl ''.title, .position, .role, p'';
          role = orE (text_of titleEl) [];
          photo = orE (opt_chain (el_querySelector cardEl ''img'') src) []
      in if name \<noteq> [] then
           members @ [\<lparr>bm_name = name, bm_role = role, bm_photo = photo\<rparr>]
         else members)"

definition extractBoardListing :: "document \<Rightarrow> board_listing" where
  \<open>extractBoardListing doc =
     (let cards = querySelectorAll doc
                    ''.board-card, .team-member, .card, [class*="board"], [class*="director"]'';
          members = (if length cards > 0 then fold board_card cards [] else []);
          body = orE (opt_chain (querySelector doc ''main'') innerHTML) []
      in \<lparr>bl_members = members, bl_body = body\<rparr>)\<close>

record generic_page =
  gp_title :: string
  gp_body :: string
  gp_bodyText :: string
  gp_images :: "image list"
  gp_sidebar :: string

definition extractGenericPage :: "document \<Rightarrow> generic_page" where
  "extractGenericPage doc =
     (let title = orE (text_of (querySelector doc ''h1'')) [];
          content = querySelector doc ''article, main .content, .page-content, main'';
          body = orE (opt_chain content innerHTML) [];
          bodyText = orE (text_of content) [];
          images = content_images doc;
          sidebar = orE (opt_chain (querySelector doc ''aside, .sidebar'') innerHTML) []
      in \<lparr>gp_title = title, gp_body = body, gp_bodyText = bodyText,
          gp_images = images, gp_sidebar = sidebar\<rparr>)"

datatype extracted =
    NewsData news
  | ScholarshipData labelled
  | GrantData labelled
  | StaffData staff_listing
  | BoardData board_listing
  | PageData generic_page

definition getExtractor :: "string \<Rightarrow> document \<Rightarrow> extracted" where
  \<comment> \<open>The \<open>switch\<close>, applied to the page at once.\<close>
  "getExtractor t doc =
     (if t = ''news'' then NewsData (extractNews doc)
      else if t = ''scholarship'' then ScholarshipData (extractScholarship doc)
      else if t = ''grant'' then GrantData (extractGrant doc)
      else if t = ''staff-listing'' then StaffData (extractStaffListing doc)
      else if t = ''board-listing'' then BoardData (extractBoardListing doc)
      else PageData (extractGenericPage doc))"

definition empty_document :: document where
  "empty_document = \<lparr>querySelector = (\<lambda>sel. None), querySelectorAll = (\<lambda>sel. [])\<rparr>"

definition defaults :: "string \<Rightarrow> extracted" where
  \<comment> \<open>The record of each content type with every field at its empty value.\<close>
  "defaults t =
     (if t = ''news'' then
        NewsData \<lparr>news_title = [], news_date = [], news_author = [], news_category = [],
                  news_featuredImage = [], news_body = [], news_bodyText = [], news_images = []\<rparr>
      else if t = ''scholarship'' then
        ScholarshipData \<lparr>lab_title = [], lab_fields = Map.empty, lab_body = [],
                         lab_bodyText = [], lab_images = []\<rparr>
      else if t = ''grant'' then
        GrantData \<lparr>lab_title = [], lab_fields = Map.empty, lab_body = [],
                   lab_bodyText = [], lab_images = []\<rparr>
      else if t = ''staff-listing'' then StaffData \<lparr>sl_members = [], sl_body = []\<rparr>
      else if t = ''board-listing'' then BoardData \<lparr>bl_members = [], bl_body = []\<rparr>
      else PageData \<lparr>gp_title = [], gp_body = [], gp_bodyText = [], gp_images = [],
                     gp_sidebar = []\<rparr>)"

section \<open>HTML documents (the cheerio objects of prepare-content.mjs)\<close>

datatype node = Text string | Elem string "(string \<times> string) list" "node list"

definition void_tags :: "string list" where
  "void_tags = [''area'', ''base'', ''basefont'', ''bgsound'', ''br'', ''col'', ''embed'',
     ''frame'', ''hr'', ''img'', ''input'', ''keygen'', ''link'', ''meta'', ''param'',
     ''source'', ''track'', ''wbr'']"

definition raw_text_tags :: "string list" where
  "raw_text_tags = [''style'', ''script'', ''xmp'', ''iframe'', ''noembed'', ''noframes'',
     ''plaintext'']"

fun escape_text :: "string \<Rightarrow> string" where
  "escape_text [] = []"
| "escape_text (c # r) =
     (if c = CHR ''&'' then ''&amp;'' @ escape_text r
      else if c = CHR ''<'' then ''&lt;'' @ escape_text r
      else if c = CHR ''>'' then ''&gt;'' @ escape_text r
      else if c = CHR 0xA0 then ''&nbsp;'' @ escape_text r
      else c # escape_text r)"

fun escape_attr :: "string \<Rightarrow> string" where
  "escape_attr [] = []"
| "escape_attr (c # r) =
     (if c = CHR ''&'' then ''&amp;'' @ escape_attr r
      else if c = CHR 0x22 then ''&quot;'' @ escape_attr r
      else if c = CHR 0xA0 then ''&nbsp;'' @ escape_attr r
      else c # escape_attr r)"

definition attrs_html :: "(string \<times> string) list \<Rightarrow> string" where
  "attrs_html as = concat (map (\<lambda>(k, v). '' '' @ k @ ''='' @ [CHR 0x22] @ escape_attr v @ [CHR 0x22]) as)"

fun outer_html :: "bool \<Rightarrow> node \<Rightarrow> string" where
  "outer_html raw (Text t) = (if raw then t else escape_text t)"
| "outer_html raw (Elem tag as cs) =
     ''<'' @ tag @ attrs_html as @ ''>''
     @ (if tag \<in> set void_tags then []
        else concat (map (outer_html (tag \<in> set raw_text_tags)) cs) @ ''</'' @ tag @ ''>'')"

definition inner_html :: "node \<Rightarrow> string" where
  "inner_html n =
     (case n of Text t \<Rightarrow> []
      | Elem tag as cs \<Rightarrow> concat (map (outer_html (tag \<in> set raw_text_tags)) cs))"

fun node_text :: "node \<Rightarrow> string" where
  \<comment> \<open>\<open>.text()\<close> of one element: the text of all its descendants.\<close>
  "node_text (Text t) = t"
| "node_text (Elem tag as cs) = concat (map node_text cs)"


type_synonym dom = "node list"

definition root_html :: "dom \<Rightarrow> string" where
  \<comment> \<open>\<open>$.html()\<close>: the whole document.\<close>
  "root_html d = concat (map (outer_html False) d)"

subsection \<open>Selectors\<close>

datatype simple = Tag string | Class string | AttrContains string string | FirstChild

datatype selector =
    Sel "simple list"
  | Desc selector "simple list"
  | Child selector "simple list"

fun contains :: "string \<Rightarrow> string \<Rightarrow> bool" where
  "contains pat [] = (pat = [])"
| "contains pat (c # r) = (prefix pat (c # r) \<or> contains pat r)"

definition is_html_space :: "char \<Rightarrow> bool" where
  "is_html_space c = (c \<in> set [CHR 0x09, CHR 0x0A, CHR 0x0C, CHR 0x0D, CHR 0x20])"

fun split_ws :: "string \<Rightarrow> string \<Rightarrow> string list" where
  "split_ws cur [] = (if cur = [] then [] else [rev cur])"
| "split_ws cur (c # r) =
     (if is_html_space c then (if cur = [] then [] else [rev cur]) @ split_ws [] r
      else split_ws (c # cur) r)"

definition classes :: "(string \<times> string) list \<Rightarrow> string list" where
  "classes as = (case map_of as ''class'' of None \<Rightarrow> [] | Some v \<Rightarrow> split_ws [] v)"

fun simple_ok :: "simple \<Rightarrow> node \<Rightarrow> bool \<Rightarrow> bool" where
  "simple_ok s (Text t) first = False"
| "simple_ok (Tag t) (Elem tag as cs) first = (tag = t)"
| "simple_ok (Class c) (Elem tag as cs) first = (c \<in> set (classes as))"
| "simple_ok (AttrContains k v) (Elem tag as cs) first =
     (case map_of as k of None \<Rightarrow> False | Some x \<Rightarrow> contains v x)"
| "simple_ok FirstChild (Elem tag as cs) first = first"

text \<open>
  An element is matched in its context: the chain of its ancestors, nearest first, each
  with the flag that says whether it is the first element child of its parent.
\<close>

type_synonym ctx = "(node \<times> bool) list"

fun matches :: "selector \<Rightarrow> ctx \<Rightarrow> node \<Rightarrow> bool \<Rightarrow> bool"
  and above :: "selector \<Rightarrow> ctx \<Rightarrow> bool" where
  "matches (Sel c) cx n first = list_all (\<lambda>s. simple_ok s n first) c"
| "matches (Child s c) cx n first =
     (list_all (\<lambda>s. simple_ok s n first) c
      \<and> (case cx of [] \<Rightarrow> False | (p, pf) # rest \<Rightarrow> matches s rest p pf))"
| "matches (Desc s c) cx n first = (list_all (\<lambda>s. simple_ok s n first) c \<and> above s cx)"
| "above s [] = False"
| "above s ((p, pf) # rest) = (matches s rest p pf \<or> above s rest)"

definition matches_any :: "selector list \<Rightarrow> ctx \<Rightarrow> node \<Rightarrow> bool \<Rightarrow> bool" where
  \<comment> \<open>A selector list \<open>a, b\<close>.\<close>
  "matches_any sels cx n first = list_ex (\<lambda>s. matches s cx n first) sels"

fun remove_list :: "(ctx \<Rightarrow> node \<Rightarrow> bool \<Rightarrow> bool) \<Rightarrow> ctx \<Rightarrow> bool \<Rightarrow> node list \<Rightarrow> node list" where
  \<comment> \<open>\<open>$(sel).remove()\<close> below one parent: \<open>first\<close> holds until an element has been passed.\<close>
  "remove_list P cx first [] = []"
| "remove_list P cx first (Text t # ns) = Text t # remove_list P cx first ns"
| "remove_list P cx first (Elem tag as cs # ns) =
     (if P cx (Elem tag as cs) first then []
      else [Elem tag as (remove_list P ((Elem tag as cs, first) # cx) True cs)])
     @ remove_list P cx False ns"

definition remove :: "selector \<Rightarrow> dom \<Rightarrow> dom" where
  "remove sel d = remove_list (matches sel) [] True d"

fun find_list :: "(ctx \<Rightarrow> node \<Rightarrow> bool \<Rightarrow> bool) \<Rightarrow> ctx \<Rightarrow> bool \<Rightarrow> node list \<Rightarrow> node option" where
  \<comment> \<open>The first match in document order.\<close>
  "find_list P cx first [] = None"
| "find_list P cx first (Text t # ns) = find_list P cx first ns"
| "find_list P cx first (Elem tag as cs # ns) =
     (if P cx (Elem tag as cs) first then Some (Elem tag as cs)
      else case find_list P ((Elem tag as cs, first) # cx) True cs of
             Some x \<Rightarrow> Some x
           | None \<Rightarrow> find_list P cx False ns)"

definition select_first :: "selector \<Rightarrow> dom \<Rightarrow> node option" where
  "select_first sel d = find_list (matches sel) [] True d"

definition html_of :: "node option \<Rightarrow> string option" where
  \<comment> \<open>\<open>.html()\<close> of a selection: \<open>null\<close> when it is empty, else the inner HTML of its first element.\<close>
  "html_of sel = map_option inner_html sel"

definition truthy :: "string option \<Rightarrow> bool" where
  "truthy v = (case v of None \<Rightarrow> False | Some s \<Rightarrow> s \<noteq> [])"

subsection \<open>A parser for explicitly closed markup\<close>

datatype token = Open string "(string \<times> string) list" | Close string | Chars string

fun parse_attrs :: "nat \<Rightarrow> string \<Rightarrow> (string \<times> string) list" where
  "parse_attrs 0 s = []"
| "parse_attrs (Suc fuel) s =
     (let s = dropWhile (\<lambda>c. is_html_space c \<or> c = CHR ''/'') s in
      if s = [] then []
      else
        let k = takeWhile (\<lambda>c. \<not> is_html_space c \<and> c \<noteq> CHR ''='' \<and> c \<noteq> CHR ''/'') s;
            r = dropWhile is_html_space (drop (length k) s)
        in case r of
             [] \<Rightarrow> [(lower k, [])]
           | c # r' \<Rightarrow>
               if c \<noteq> CHR ''='' then (lower k, []) # parse_attrs fuel r
               else
                 let r' = dropWhile is_html_space r' in
                 (case r' of
                    [] \<Rightarrow> [(lower k, [])]
                  | q # v \<Rightarrow>
                      if q = CHR 0x22 \<or> q = CHR 0x27 then
                        (lower k, takeWhile (\<lambda>c. c \<noteq> q) v)
                          # parse_attrs fuel (drop 1 (dropWhile (\<lambda>c. c \<noteq> q) v))
                      else
                        (lower k, takeWhile (\<lambda>c. \<not> is_html_space c) r')
                          # parse_attrs fuel (dropWhile (\<lambda>c. \<not> is_html_space c) r')))"

definition open_tag :: "string \<Rightarrow> token" where
  \<comment> \<open>The text between \<open><\<close> and \<open>>\<close> of a start tag.\<close>
  "open_tag s =
     (let name = takeWhile (\<lambda>c. \<not> is_html_space c \<and> c \<noteq> CHR ''/'') s
      in Open (lower name) (parse_attrs (length s) (drop (length name) s)))"

fun tokenize :: "nat \<Rightarrow> string \<Rightarrow> token list" where
  "tokenize 0 s = []"
| "tokenize (Suc fuel) s =
     (case s of
        [] \<Rightarrow> []
      | c # r \<Rightarrow>
          if c = CHR ''<'' then
            (let inside = takeWhile (\<lambda>x. x \<noteq> CHR ''>'') r;
                 rest = drop 1 (dropWhile (\<lambda>x. x \<noteq> CHR ''>'') r)
             in (case inside of
                   [] \<Rightarrow> tokenize fuel rest
                 | x # xs \<Rightarrow>
                     if x = CHR ''/'' then Close (lower (trim xs)) # tokenize fuel rest
                     else open_tag inside # tokenize fuel rest))
          else Chars (takeWhile (\<lambda>x. x \<noteq> CHR ''<'') s)
                 # tokenize fuel (dropWhile (\<lambda>x. x \<noteq> CHR ''<'') s))"

fun build :: "nat \<Rightarrow> token list \<Rightarrow> node list \<times> token list" where
  \<comment> \<open>The nodes up to the next unmatched end tag, and the tokens from there on.\<close>
  "build 0 ts = ([], ts)"
| "build (Suc fuel) [] = ([], [])"
| "build (Suc fuel) (Close n # ts) = ([], Close n # ts)"
| "build (Suc fuel) (Chars s # ts) =
     (let (ns, r) = build fuel ts in (Text s # ns, r))"
| "build (Suc fuel) (Open n as # ts) =
     (if n \<in> set void_tags then
        (let (ns, r) = build fuel ts in (Elem n as [] # ns, r))
      else
        (let (cs, r1) = build fuel ts;
             r2 = (case r1 of Close m # r' \<Rightarrow> r' | _ \<Rightarrow> r1);
             (ns, r3) = build fuel r2
         in (Elem n as cs # ns, r3)))"

definition structural :: "token \<Rightarrow> bool" where
  \<comment> \<open>The tags of the document skeleton, which add no element inside \<open>body\<close>.\<close>
  "structural t =
     (case t of
        Open n as \<Rightarrow> n \<in> {''html'', ''head'', ''body''}
      | Close n \<Rightarrow> n \<in> {''html'', ''head'', ''body''}
      | Chars s \<Rightarrow> False)"

definition parse_simple :: "string \<Rightarrow> dom" where
  \<comment> \<open>What \<open>cheerio.load\<close> makes of a fragment: its nodes become the children of \<open>body\<close>.\<close>
  "parse_simple s =
     (let ts = filter (\<lambda>t. \<not> structural t) (tokenize (Suc (length s)) s)
      in [Elem ''html'' [] [Elem ''head'' [] [],
            Elem ''body'' [] (fst (build (Suc (length ts)) ts))]])"


section \<open>HTML content cleaner (prepare-content.mjs)\<close>

text \<open>
  \<open>cheerio.load\<close> is the library's parser and a parameter \<open>load\<close> of every function
  that calls it; \<open>parse_simple\<close> stands in for it in the examples.
\<close>

definition tag_class :: "string \<Rightarrow> string \<Rightarrow> selector" where
  \<comment> \<open>The selector \<open>tag.class\<close>.\<close>
  "tag_class t c = Sel [Tag t, Class c]"

fun any_child :: "(ctx \<Rightarrow> node \<Rightarrow> bool \<Rightarrow> bool) \<Rightarrow> ctx \<Rightarrow> bool \<Rightarrow> node list \<Rightarrow> bool" where
  "any_child P cx first [] = False"
| "any_child P cx first (Text t # ns) = any_child P cx first ns"
| "any_child P cx first (Elem tag as cs # ns) =
     (P cx (Elem tag as cs) first \<or> any_child P cx False ns)"

definition thumbnail_paragraph :: "ctx \<Rightarrow> node \<Rightarrow> bool \<Rightarrow> bool" where
  \<comment> \<open>The elements \<open>$main('p:first-child > img.thumbnail').closest('p')\<close> selects: an
     \<open>img\<close> is no \<open>p\<close>, so the closest \<open>p\<close> is the parent the selector names.\<close>
  "thumbnail_paragraph cx n first =
     (case n of
        Text t \<Rightarrow> False
      | Elem tag as cs \<Rightarrow>
          any_child (matches (Child (Sel [Tag ''p'', FirstChild]) [Tag ''img'', Class ''thumbnail'']))
            ((n, first) # cx) True cs)"

definition news_removed :: "selector list" where
  \<comment> \<open>The selectors of the \<open>remove()\<close> calls of \<open>cleanNewsBody\<close>, in their order.\<close>
  "news_removed =
     [tag_class ''section'' ''article-info'', tag_class ''section'' ''related'',
      tag_class ''section'' ''text-banner'', tag_class ''div'' ''share'', Sel [Class ''a2a_kit''],
      Sel [Tag ''script'', AttrContains ''src'' ''addtoany''], Sel [Tag ''script''],
      Sel [AttrContains ''class'' ''ctct'']]"

definition scholarship_removed :: "selector list" where
  "scholarship_removed =
     [tag_class ''section'' ''banner'', tag_class ''section'' ''side-nav'',
      tag_class ''div'' ''share'', Sel [Class ''a2a_kit''], Sel [Tag ''script''],
      Sel [AttrContains ''class'' ''ctct'']]"

definition page_removed :: "selector list" where
  "page_removed =
     [tag_class ''section'' ''banner'', tag_class ''section'' ''side-nav'',
      tag_class ''section'' ''article-info'', tag_class ''section'' ''related'',
      Desc (Desc (tag_class ''section'' ''sub-content'') [Class ''side-block'']) [Class ''sub-nav''],
      tag_class ''div'' ''share'', Sel [Class ''a2a_kit''], Sel [Tag ''script''],
      Sel [AttrContains ''class'' ''ctct'']]"

definition cleanNewsBody :: "(string \<Rightarrow> dom) \<Rightarrow> string \<Rightarrow> string" where
  "cleanNewsBody load rawBody =
     (if rawBody = [] then []
      else
        let d = fold remove news_removed (load rawBody);
            mainContent = html_of (select_first (tag_class ''section'' ''main-content'') d);
            subContent = html_of (select_first (tag_class ''section'' ''sub-content'') d);
            body = (case mainContent of
                      None \<Rightarrow> []
                    | Some m \<Rightarrow>
                        if m = [] then []
                        else or_else (root_html (remove_list thumbnail_paragraph [] True (load m))) []);
            body = (case subContent of
                      None \<Rightarrow> body
                    | Some sc \<Rightarrow> if sc = [] then body else body @ sc)
        in trim body)"

definition cleanScholarshipBody :: "(string \<Rightarrow> dom) \<Rightarrow> string \<Rightarrow> string" where
  "cleanScholarshipBody load rawBody =
     (if rawBody = [] then []
      else
        let d = fold remove scholarship_removed (load rawBody);
            mainContent = html_of (select_first (tag_class ''section'' ''main-content'') d)
        in case mainContent of
             None \<Rightarrow> []
           | Some m \<Rightarrow> if m = [] then [] else trim m)"

definition cleanPageBody :: "(string \<Rightarrow> dom) \<Rightarrow> string \<Rightarrow> string" where
  "cleanPageBody load rawBody =
     (if rawBody = [] then []
      else
        let d = fold remove page_removed (load rawBody);
            mainContent = html_of (select_first (tag_class ''section'' ''main-content'') d);
            subContent = html_of (select_first (tag_class ''section'' ''sub-content'') d);
            body = (case mainContent of None \<Rightarrow> [] | Some m \<Rightarrow> m);
            body = (case subContent of
                      None \<Rightarrow> body
                    | Some sc \<Rightarrow> if sc = [] then body else body @ sc);
            body = (if body = [] then or_else (root_html d) [] else body)
        in trim body)"

section \<open>Structured field parser (prepare-content.mjs)\<close>

record renewable =
  isRenewable :: bool
  details :: string

record scholarship_fields =
  eligibility :: "string list"
  amount :: string
  renewable :: renewable
  deadline :: string
  requirements :: "string list"
  description :: string

definition starts_with_label :: "string list \<Rightarrow> string \<Rightarrow> bool" where
  \<comment> \<open>\<open>/^(A|B|...):/i.test(s)\<close>\<close>
  "starts_with_label labels s = list_ex (\<lambda>l. prefix (lower l @ '':'') (lower s)) labels"

definition is_label :: "string list \<Rightarrow> string \<Rightarrow> bool" where
  \<comment> \<open>\<open>/^(A|B|...):?$/i.test(s)\<close>\<close>
  "is_label labels s = list_ex (\<lambda>l. lower s = lower l \<or> lower s = lower l @ '':'') labels"

fun cut_at :: "(string \<Rightarrow> bool) \<Rightarrow> string \<Rightarrow> string option" where
  \<comment> \<open>What stands before the leftmost position from which the rest of the string
     satisfies \<open>P\<close>: where a regular expression that ends in \<open>$\<close> starts to match.\<close>
  "cut_at P [] = (if P [] then Some [] else None)"
| "cut_at P (c # r) = (if P (c # r) then Some [] else map_option ((#) c) (cut_at P r))"

definition label_tail :: "string list \<Rightarrow> string \<Rightarrow> bool" where
  \<comment> \<open>The whole string matches \<open>\s*(A|B|...):?\s*\<close>, letters in either case.\<close>
  "label_tail labels t =
     (let a = dropWhile is_space t in
      list_ex (\<lambda>l. prefix (lower l) (lower a)
                  \<and> (let b = drop (length l) a;
                          b = (if prefix '':'' b then drop 1 b else b)
                      in dropWhile is_space b = [])) labels)"

definition strip_trailing_label :: "string list \<Rightarrow> string \<Rightarrow> string" where
  \<comment> \<open>\<open>s.replace(/\s*(A|B|...):?\s*$/i, '')\<close>\<close>
  "strip_trailing_label labels s =
     (case cut_at (label_tail labels) s of None \<Rightarrow> s | Some pre \<Rightarrow> pre)"

definition strip_prefix_ci :: "string \<Rightarrow> string \<Rightarrow> string" where
  \<comment> \<open>\<open>s.replace(/^Label:\s*/i, '')\<close>\<close>
  "strip_prefix_ci lab s =
     (if prefix (lower lab) (lower s) then dropWhile is_space (drop (length lab) s) else s)"

fun last_after :: "string \<Rightarrow> string \<Rightarrow> string option" where
  \<comment> \<open>\<open>s.substring(s.lastIndexOf(pat) + pat.length)\<close>, or \<open>None\<close> when the index is -1.\<close>
  "last_after pat [] = (if pat = [] then Some [] else None)"
| "last_after pat (c # r) =
     (case last_after pat r of
        Some t \<Rightarrow> Some t
      | None \<Rightarrow> if prefix pat (c # r) then Some (drop (length pat) (c # r)) else None)"

definition field_labels :: "string list" where
  "field_labels = [''Eligibility'', ''Amount'', ''Renewable'', ''Deadline'', ''Requirements'', ''Apply'']"

fun find_tag :: "string \<Rightarrow> node list \<Rightarrow> node list" where
  \<comment> \<open>The elements with the given tag among the nodes and their descendants, in document order.\<close>
  "find_tag t [] = []"
| "find_tag t (Text x # ns) = find_tag t ns"
| "find_tag t (Elem tag as cs # ns) =
     (if tag = t then [Elem tag as cs] else []) @ find_tag t cs @ find_tag t ns"

definition children :: "node \<Rightarrow> node list" where
  "children n = (case n of Text t \<Rightarrow> [] | Elem tag as cs \<Rightarrow> cs)"

definition tag_of :: "node \<Rightarrow> string" where
  "tag_of n = (case n of Text t \<Rightarrow> [] | Elem tag as cs \<Rightarrow> tag)"

definition is_elem :: "node \<Rightarrow> bool" where
  "is_elem n = (case n of Text t \<Rightarrow> False | Elem tag as cs \<Rightarrow> True)"

definition elig_head :: "string \<Rightarrow> bool" where
  \<comment> \<open>The string starts with \<open><strong>\s*Eligibility:\s*</strong>\<close>, letters in either case.\<close>
  "elig_head t =
     (let l = lower t in
      prefix ''<strong>'' l
      \<and> (let a = dropWhile is_space (drop 8 l) in
           prefix ''eligibility:'' a \<and> prefix ''</strong>'' (dropWhile is_space (drop 12 a))))"

definition elig_split :: "string \<Rightarrow> string option" where
  \<comment> \<open>The first group of \<open>/^([\s\S]+?)(<strong>\s*Eligibility:\s*<\/strong>[\s\S]*)$/i\<close>.\<close>
  "elig_split h = (case h of [] \<Rightarrow> None | c # r \<Rightarrow> map_option ((#) c) (cut_at elig_head r))"

definition br_tail :: "string \<Rightarrow> bool" where
  \<comment> \<open>The whole string matches \<open><br\s*\/?>\s*\<close>, letters in either case.\<close>
  "br_tail t =
     (let l = lower t in
      prefix ''<br'' l
      \<and> (let a = dropWhile is_space (drop 3 l);
              b = (if prefix ''/'' a then drop 1 a else a)
          in prefix ''>'' b \<and> dropWhile is_space (drop 1 b) = []))"

definition strip_trailing_br :: "string \<Rightarrow> string" where
  \<comment> \<open>\<open>s.replace(/<br\s*\/?>\s*$/gi, '')\<close>: only one match can reach the end.\<close>
  "strip_trailing_br s = (case cut_at br_tail s of None \<Rightarrow> s | Some pre \<Rightarrow> pre)"

definition desc_step :: "node \<Rightarrow> string list \<times> bool \<Rightarrow> string list \<times> bool" where
  \<comment> \<open>One round of the loop over \<open>allChildren\<close>; the state is \<open>descParts\<close> and \<open>reachedFields\<close>.\<close>
  "desc_step el st =
     (let (descParts, reachedFields) = st;
          txt = trim (node_text el);
          hasFieldLabel =
            (starts_with_label field_labels txt
             \<or> list_ex (\<lambda>s. is_label field_labels (trim (node_text s)))
                  (find_tag ''strong'' (children el)));
          (descParts, reachedFields) =
            (if hasFieldLabel \<and> \<not> reachedFields then
               ((case elig_split (outer_html False el) of
                   None \<Rightarrow> descParts
                 | Some pre \<Rightarrow>
                     let descBefore = trim (strip_trailing_br pre) in
                     if descBefore \<noteq> [] then
                       (if prefix ''<p>'' descBefore \<or> prefix ''<p '' descBefore
                        then descParts @ [descBefore @ ''</p>'']
                        else descParts @ [descBefore])
                     else descParts), True)
             else (descParts, reachedFields))
      in if \<not> reachedFields then
           (if tag_of el = ''script'' then (descParts, reachedFields)
            else (descParts @ [outer_html False el], reachedFields))
         else (descParts, reachedFields))"

text \<open>
  A \<open>strong\<close> element is handled with the places around it: each place is an element
  with the siblings that follow it, and the chain lists the element itself and then
  its ancestors, nearest first.
\<close>

type_synonym place = "node \<times> node list"

fun strong_places :: "place list \<Rightarrow> node list \<Rightarrow> place list list" where
  \<comment> \<open>\<open>$content('strong').toArray()\<close>, each element with its chain.\<close>
  "strong_places anc [] = []"
| "strong_places anc (Text t # ns) = strong_places anc ns"
| "strong_places anc (Elem tag as cs # ns) =
     (if tag = ''strong'' then [(Elem tag as cs, ns) # anc] else [])
     @ strong_places ((Elem tag as cs, ns) # anc) cs
     @ strong_places anc ns"

definition closest :: "string list \<Rightarrow> place list \<Rightarrow> place option" where
  \<comment> \<open>\<open>.closest('a, b')\<close> for tag names: the element itself or its nearest such ancestor.\<close>
  "closest tags chain = find (\<lambda>pl. tag_of (fst pl) \<in> set tags) chain"

definition parent_of :: "place list \<Rightarrow> place option" where
  "parent_of chain = (case chain of self # p # rest \<Rightarrow> Some p | _ \<Rightarrow> None)"

definition next_first :: "string list \<Rightarrow> place option \<Rightarrow> node option" where
  \<comment> \<open>\<open>.nextAll('a, b').first()\<close> of a selection of at most one element.\<close>
  "next_first tags pl =
     (case pl of
        None \<Rightarrow> None
      | Some (n, later) \<Rightarrow> find (\<lambda>x. is_elem x \<and> tag_of x \<in> set tags) later)"

definition list_items :: "node \<Rightarrow> string list" where
  \<comment> \<open>\<open>nextList.find('li').toArray().map(li => $content(li).text().trim())\<close>\<close>
  "list_items l = map (\<lambda>li. trim (node_text li)) (find_tag ''li'' (children l))"

definition strong_label :: "node \<Rightarrow> string" where
  \<comment> \<open>\<open>$strong.text().trim().replace(/:$/, '').toLowerCase()\<close>\<close>
  "strong_label n =
     (let t = trim (node_text n)
      in toLowerCase (if t \<noteq> [] \<and> last t = CHR '':'' then butlast t else t))"

definition deadline_scrub :: "string list" where
  \<comment> \<open>The labels of the trailing-label expression of the Deadline branch.\<close>
  "deadline_scrub = [''Requirements'', ''Apply'', ''Amount'', ''Renewable'', ''Eligibility'']"

definition deadline_text :: "string \<Rightarrow> string" where
  \<comment> \<open>\<open>afterLabel\<close> of the Deadline branch, from the paragraph's trimmed text.\<close>
  "deadline_text fullText =
     (let afterLabel =
            (case last_after ''Deadline:'' fullText of
               Some t \<Rightarrow> trim t
             | None \<Rightarrow> trim (strip_prefix_ci ''Deadline:'' fullText))
      in trim (strip_trailing_label deadline_scrub afterLabel))"

definition deadline_choice :: "string \<Rightarrow> node option \<Rightarrow> string \<Rightarrow> string" where
  \<comment> \<open>The \<open>if\<close> that assigns \<open>result.deadline\<close>; \<open>old\<close> is its value so far.\<close>
  "deadline_choice afterLabel nextP old =
     (if afterLabel \<noteq> [] \<and> \<not> starts_with_label [''Requirements'', ''Apply''] afterLabel
      then afterLabel
      else
        (case nextP of
           None \<Rightarrow> old
         | Some np \<Rightarrow>
             let nextText = trim (node_text np) in
             if \<not> starts_with_label deadline_scrub nextText then nextText else old))"

definition field_step :: "place list \<Rightarrow> scholarship_fields \<Rightarrow> scholarship_fields" where
  \<comment> \<open>One round of the loop over \<open>strongTags\<close>.\<close>
  "field_step chain result =
     (case chain of
        [] \<Rightarrow> result
      | self # up \<Rightarrow>
          let label = strong_label (fst self) in
          if label = ''eligibility'' then
            (let parent = closest [''p'', ''li'', ''div''] chain;
                 nextList = (if parent \<noteq> None then next_first [''ul'', ''ol''] parent
                             else next_first [''ul'', ''ol''] (closest [''p''] chain));
                 nextList = (if nextList = None
                             then next_first [''ul'', ''ol''] (parent_of chain) else nextList)
             in case nextList of
                  None \<Rightarrow> result
                | Some l \<Rightarrow> result\<lparr>eligibility := list_items l\<rparr>)
          else if label = ''amount'' then
            (case closest [''p''] chain of
               None \<Rightarrow> result
             | Some parent \<Rightarrow>
                 let fullText = trim (node_text (fst parent));
                     afterLabel = trim (strip_prefix_ci ''Amount:'' fullText)
                 in if afterLabel \<noteq> [] \<and> \<not> prefix ''Renewable'' afterLabel
                       \<and> \<not> prefix ''Deadline'' afterLabel
                    then result\<lparr>amount := afterLabel\<rparr>
                    else
                      (case next_first [''p''] (Some parent) of
                         None \<Rightarrow> result
                       | Some nextP \<Rightarrow>
                           let nextText = trim (node_text nextP) in
                           if \<not> starts_with_label [''Renewable'', ''Deadline'', ''Requirements'',
                                  ''Apply'', ''Eligibility''] nextText
                           then result\<lparr>amount := nextText\<rparr> else result))
          else if label = ''renewable'' then
            (case closest [''p''] chain of
               None \<Rightarrow> result
             | Some parent \<Rightarrow>
                 let fullText = trim (node_text (fst parent));
                     afterLabel = trim (strip_prefix_ci ''Renewable:'' fullText);
                     renewText =
                       (if afterLabel = [] then
                          (case next_first [''p''] (Some parent) of
                             None \<Rightarrow> afterLabel
                           | Some nextP \<Rightarrow>
                               let nextText = trim (node_text nextP) in
                               if \<not> starts_with_label [''Deadline'', ''Requirements'', ''Apply'',
                                      ''Amount'', ''Eligibility''] nextText
                               then nextText else afterLabel)
                        else afterLabel);
                     renewText = trim (strip_trailing_label [''Deadline'', ''Requirements'',
                                   ''Apply'', ''Amount'', ''Eligibility''] renewText)
                 in if renewText \<noteq> [] then
                      result\<lparr>renewable :=
                        \<lparr>isRenewable = prefix ''yes'' (lower renewText), details = renewText\<rparr>\<rparr>
                    else result)
          else if label = ''deadline'' then
            (case closest [''p''] chain of
               None \<Rightarrow> result
             | Some parent \<Rightarrow>
                 let fullText = trim (node_text (fst parent));
                     afterLabel = deadline_text fullText
                 in result\<lparr>deadline :=
                      deadline_choice afterLabel (next_first [''p''] (Some parent)) (deadline result)\<rparr>)
          else if label = ''requirements'' then
            (let parent = closest [''p''] chain;
                 nextList = (if parent \<noteq> None then next_first [''ul'', ''ol''] parent
                             else next_first [''ul'', ''ol''] (parent_of chain))
             in case nextList of
                  None \<Rightarrow> result
                | Some l \<Rightarrow> result\<lparr>requirements := list_items l\<rparr>)
          else result)"

definition parseScholarshipFields :: "(string \<Rightarrow> dom) \<Rightarrow> string \<Rightarrow> scholarship_fields option" where
  \<comment> \<open>\<open>None\<close> is the empty object \<open>{}\<close> of the two early returns.\<close>
  "parseScholarshipFields load rawBody =
     (if rawBody = [] then None
      else
        case select_first (tag_class ''section'' ''main-content'') (load rawBody) of
          None \<Rightarrow> None
        | Some mainSection \<Rightarrow>
            let html = or_else (inner_html mainSection) [];
                content = load html;
                allChildren =
                  (case select_first (Sel [Tag ''body'']) content of
                     None \<Rightarrow> []
                   | Some b \<Rightarrow> filter is_elem (children b));
                descParts = fst (fold desc_step allChildren ([], False));
                result =
                  \<lparr>eligibility = [], amount = [],
                   renewable = \<lparr>isRenewable = False, details = []\<rparr>,
                   deadline = [], requirements = [],
                   description = trim (concat descParts)\<rparr>
            in Some (fold field_step (strong_places [] content) result))"

definition main_section :: "string \<Rightarrow> string" where
  \<comment> \<open>A body in which the given markup is the content of the main-content section.\<close>
  "main_section inner = ''<section class=main-content>'' @ inner @ ''</section>''"

definition roundtrip_body :: string where
  \<comment> \<open>The body HTML of the specification's round-trip example.\<close>
  "roundtrip_body = ''<p>Intro text.<br><br><strong>Eligibility:</strong></p><ul><li>GPA 3.0</li><li>Resident</li></ul><p><strong>Amount:</strong> $1,000</p><p><strong>Deadline:</strong> March 1</p>''"


text \<open>
  Whether an element with a given tag and class occurs among some nodes or below them:
  what a \<open>tag.class\<close> selector finds does not depend on the context.
\<close>

fun occurs :: "(string \<Rightarrow> (string \<times> string) list \<Rightarrow> bool) \<Rightarrow> node list \<Rightarrow> bool" where
  "occurs Q [] = False"
| "occurs Q (Text t # ns) = occurs Q ns"
| "occurs Q (Elem tag as cs # ns) = (Q tag as \<or> occurs Q cs \<or> occurs Q ns)"

definition has_tag_class :: "string \<Rightarrow> string \<Rightarrow> string \<Rightarrow> (string \<times> string) list \<Rightarrow> bool" where
  "has_tag_class t c tag as = (tag = t \<and> c \<in> set (classes as))"

section \<open>Invariants of the crawl\<close>

text \<open>
  The invariant of the frontier, the invariant that keeps a set \<open>V\<close> of URLs that
  were visited before the loop out of what the loop fetches, and the invariant that
  accounts for the visited set (what was visited before and what the loop fetched) and
  for every URL that has left the queue.
\<close>

definition frontier_ok :: "crawl_state \<Rightarrow> bool" where
  "frontier_ok st =
     (distinct (pushed st) \<and> set (pushed st) = seenInQueue st
      \<and> distinct (queue st) \<and> set (queue st) \<subseteq> seenInQueue st
      \<and> distinct (fetched st) \<and> set (fetched st) \<subseteq> visited st)"

definition kept_out :: "string set \<Rightarrow> crawl_state \<Rightarrow> bool" where
  "kept_out V st = (V \<subseteq> visited st \<and> set (fetched st) \<inter> V = {})"

definition accounted :: "string set \<Rightarrow> crawl_state \<Rightarrow> bool" where
  "accounted V st =
     (visited st = V \<union> set (fetched st) \<and> set (pushed st) \<subseteq> set (queue st) \<union> visited st)"

section \<open>Example inputs\<close>

definition example_urls :: url_ctor where
  \<comment> \<open>What the constructor returns on a few strings, for the examples below.\<close>
  "example_urls =
     [''https://www.thcf.org/news/my-article'' \<mapsto> thcf_url ''/news/my-article'' [] [],
      ''https://www.thcf.org/about/news'' \<mapsto> thcf_url ''/about/news'' [] [],
      ''https://www.thcf.org/donors/'' \<mapsto> thcf_url ''/donors/'' [] [],
      ''https://www.thcf.org/'' \<mapsto> thcf_url ''/'' [] [],
      ''/about/news/?page=2#top'' \<mapsto> thcf_url ''/about/news/'' ''?page=2'' ''#top'']"

definition example_resolve :: url_ctor where
  \<comment> \<open>The table above, and site-relative paths resolved against the site's origin.\<close>
  "example_resolve s =
     (case example_urls s of
        Some u \<Rightarrow> Some u
      | None \<Rightarrow> if prefix ''/'' s then Some (thcf_url s [] []) else None)"

definition example_nav :: "nav_item list" where
  "example_nav = [NavItem ''About'' ''/about'' [(''Staff'', ''/about/staff'')]]"

definition example_env :: env where
  \<comment> \<open>A resumed run with a budget of two pages; only the first page fetched answers.\<close>
  "example_env =
     \<lparr>RESUME = True, MAX_PAGES = Some 2,
      sitemap = Some [''https://www.thcf.org/donors''],
      resolveURL = example_resolve, parseURL = example_urls,
      nav = Some example_nav,
      view = (\<lambda>u. Unreachable),
      scrapePage = (\<lambda>n u. if n = 1 then Some (''Home'', [''/apply'', ''/donors'', ''/gala''])
                           else None)\<rparr>"


section \<open>Classifier: rule order\<close>

lemma first_match_default:
  "(\<forall>i < length ps. \<not> test (fst (ps ! i)) s) \<Longrightarrow> first_match ps s = ''page''"
proof (induction ps)
  case Nil
  show ?case by simp
next
  case (Cons r ps)
  obtain p t where r: "r = (p, t)" by (cases r)
  from Cons.prems have "\<not> test p s" using r by force
  moreover from Cons.prems have "\<forall>i < length ps. \<not> test (fst (ps ! i)) s" by force
  ultimately show ?case using Cons.IH r by simp
qed

lemma first_match_at:
  "i < length ps \<Longrightarrow> test (fst (ps ! i)) s \<Longrightarrow> (\<forall>j < i. \<not> test (fst (ps ! j)) s)
   \<Longrightarrow> first_match ps s = snd (ps ! i)"
proof (induction ps arbitrary: i)
  case Nil
  then show ?case by simp
next
  case (Cons r ps)
  obtain p t where r: "r = (p, t)" by (cases r)
  show ?case
  proof (cases i)
    case 0
    with Cons.prems r show ?thesis by simp
  next
    case (Suc k)
    from Cons.prems(3) Suc have "\<not> test p s" using r by force
    moreover have "k < length ps" using Cons.prems(1) Suc by simp
    moreover have "test (fst (ps ! k)) s" using Cons.prems(2) Suc by simp
    moreover have "\<forall>j < k. \<not> test (fst (ps ! j)) s"
    proof (intro allI impI)
      fix j assume "j < k"
      then have "Suc j < i" using Suc by simp
      with Cons.prems(3) have "\<not> test (fst ((r # ps) ! Suc j)) s" by blast
      then show "\<not> test (fst (ps ! j)) s" by simp
    qed
    ultimately show ?thesis using Cons.IH[of k] r Suc by simp
  qed
qed

text \<open>
  C3. The classifier evaluates its rules in order and the first rule whose pattern
  matches the path decides the type; a path that no rule matches is a "page". A URL
  whose path is /news/my-article is "news", one whose path is /about/news is
  "news-listing".
\<close>

theorem classifyPage_first_match_wins:
  "(i < length PATTERNS \<and> test (fst (PATTERNS ! i)) (classify_path parse url)
      \<and> (\<forall>j < i. \<not> test (fst (PATTERNS ! j)) (classify_path parse url))
     \<longrightarrow> classifyPage parse url = snd (PATTERNS ! i))
   \<and> ((\<forall>k < length PATTERNS. \<not> test (fst (PATTERNS ! k)) (classify_path parse url))
     \<longrightarrow> classifyPage parse url = ''page'')
   \<and> (parse url = Some u \<and> pathname u = ''/news/my-article''
     \<longrightarrow> classifyPage parse url = ''news'')
   \<and> (parse url = Some u \<and> pathname u = ''/about/news''
     \<longrightarrow> classifyPage parse url = ''news-listing'')"
proof (intro conjI impI)
  assume "i < length PATTERNS \<and> test (fst (PATTERNS ! i)) (classify_path parse url)
      \<and> (\<forall>j < i. \<not> test (fst (PATTERNS ! j)) (classify_path parse url))"
  then show "classifyPage parse url = snd (PATTERNS ! i)"
    unfolding classifyPage_def using first_match_at by blast
next
  assume "\<forall>k < length PATTERNS. \<not> test (fst (PATTERNS ! k)) (classify_path parse url)"
  then show "classifyPage parse url = ''page''"
    unfolding classifyPage_def by (rule first_match_default)
next
  assume "parse url = Some u \<and> pathname u = ''/news/my-article''"
  then have "classify_path parse url = ''/news/my-article''"
    by (simp add: classify_path_def strip_trailing_slash_def or_else_def)
  then show "classifyPage parse url = ''news''"
    by (simp add: classifyPage_def PATTERNS_def)
next
  assume "parse url = Some u \<and> pathname u = ''/about/news''"
  then have "classify_path parse url = ''/about/news''"
    by (simp add: classify_path_def strip_trailing_slash_def or_else_def)
  then show "classifyPage parse url = ''news-listing''"
    by (simp add: classifyPage_def PATTERNS_def)
qed


theorem classifyPage_first_match_wins_witness:
  "classifyPage example_urls ''https://www.thcf.org/news/my-article'' = ''news''
   \<and> classifyPage example_urls ''https://www.thcf.org/about/news'' = ''news-listing''
   \<and> classifyPage example_urls ''https://www.thcf.org/donors/'' = ''page''
   \<and> classifyPage example_urls ''/scholarships/abc'' = snd (PATTERNS ! 2)"
proof -
  have a: "example_urls ''https://www.thcf.org/news/my-article''
             = Some (thcf_url ''/news/my-article'' [] [])
           \<and> pathname (thcf_url ''/news/my-article'' [] []) = ''/news/my-article''"
    by (simp add: example_urls_def thcf_url_def)
  have b: "example_urls ''https://www.thcf.org/about/news''
             = Some (thcf_url ''/about/news'' [] [])
           \<and> pathname (thcf_url ''/about/news'' [] []) = ''/about/news''"
    by (simp add: example_urls_def thcf_url_def)
  have p: "classify_path example_urls ''https://www.thcf.org/donors/'' = ''/donors''"
    by (simp add: classify_path_def example_urls_def thcf_url_def
        strip_trailing_slash_def or_else_def)
  have c: "\<forall>k < length PATTERNS.
             \<not> test (fst (PATTERNS ! k)) (classify_path example_urls ''https://www.thcf.org/donors/'')"
    unfolding p by (simp add: PATTERNS_def All_less_Suc2)
  have q: "classify_path example_urls ''/scholarships/abc'' = ''/scholarships/abc''"
    by (simp add: classify_path_def example_urls_def strip_trailing_slash_def or_else_def)
  have d: "2 < length PATTERNS
           \<and> test (fst (PATTERNS ! 2)) (classify_path example_urls ''/scholarships/abc'')
           \<and> (\<forall>j < 2. \<not> test (fst (PATTERNS ! j)) (classify_path example_urls ''/scholarships/abc''))"
    unfolding q by (auto simp: PATTERNS_def less_Suc_eq numeral_2_eq_2)
  show ?thesis
    using a b c d
      classifyPage_first_match_wins[of 0 example_urls "''https://www.thcf.org/news/my-article''"
        "thcf_url ''/news/my-article'' [] []"]
      classifyPage_first_match_wins[of 0 example_urls "''https://www.thcf.org/about/news''"
        "thcf_url ''/about/news'' [] []"]
      classifyPage_first_match_wins[of 0 example_urls "''https://www.thcf.org/donors/''"]
      classifyPage_first_match_wins[of 2 example_urls "''/scholarships/abc''"]
    by blast
qed

section \<open>Storage key\<close>

lemma slashes_to_dashes_no_slash: "CHR ''/'' \<notin> set (slashes_to_dashes s)"
  by (induction s) auto

lemma slashes_to_dashes_append:
  "slashes_to_dashes (a @ b) = slashes_to_dashes a @ slashes_to_dashes b"
  by (induction a) auto

lemma slashes_to_dashes_id: "CHR ''/'' \<notin> set s \<Longrightarrow> slashes_to_dashes s = s"
  by (induction s) auto

text \<open>
  C10. For every URL the constructor parses, \<open>slugFromUrl\<close> returns a string that is
  not empty and holds no "/": the separators inside the path come out as "--", and the
  root path gives "index".
\<close>

theorem slugFromUrl_wellformed:
  assumes "parse url = Some u"
  shows "\<exists>s. slugFromUrl parse url = Inr s \<and> s \<noteq> [] \<and> CHR ''/'' \<notin> set s
           \<and> (pathname u = ''/'' \<longrightarrow> s = ''index'')
           \<and> (\<forall>a b. pathname u = ''/'' @ a @ ''/'' @ b \<and> a \<noteq> [] \<and> b \<noteq> []
                 \<and> CHR ''/'' \<notin> set a \<and> CHR ''/'' \<notin> set b \<longrightarrow> s = a @ ''--'' @ b)"
proof -
  define p where "p = or_else (strip_trailing_slash (pathname u)) ''index''"
  define s where "s = or_else (slashes_to_dashes (strip_leading_slash p)) ''index''"
  have run: "slugFromUrl parse url = Inr s"
    using assms by (simp add: slugFromUrl_def s_def p_def)
  have ne: "s \<noteq> []" by (simp add: s_def or_else_def)
  have ns: "CHR ''/'' \<notin> set s"
    using slashes_to_dashes_no_slash[of "strip_leading_slash p"]
    by (simp add: s_def or_else_def)
  have root: "pathname u = ''/'' \<longrightarrow> s = ''index''"
    by (simp add: s_def p_def or_else_def strip_trailing_slash_def strip_leading_slash_def)
  have segs: "\<forall>a b. pathname u = ''/'' @ a @ ''/'' @ b \<and> a \<noteq> [] \<and> b \<noteq> []
                 \<and> CHR ''/'' \<notin> set a \<and> CHR ''/'' \<notin> set b \<longrightarrow> s = a @ ''--'' @ b"
  proof (intro allI impI)
    fix a b
    assume h: "pathname u = ''/'' @ a @ ''/'' @ b \<and> a \<noteq> [] \<and> b \<noteq> []
                 \<and> CHR ''/'' \<notin> set a \<and> CHR ''/'' \<notin> set b"
    then have "last (pathname u) = last b" by simp
    moreover have "last b \<in> set b" using h by simp
    ultimately have "last (pathname u) \<noteq> CHR ''/''" using h by metis
    then have "p = ''/'' @ a @ ''/'' @ b"
      using h by (simp add: p_def strip_trailing_slash_def or_else_def)
    then have "strip_leading_slash p = a @ ''/'' @ b"
      by (simp add: strip_leading_slash_def)
    then have "slashes_to_dashes (strip_leading_slash p) = a @ ''--'' @ b"
      using h by (simp add: slashes_to_dashes_append slashes_to_dashes_id)
    then show "s = a @ ''--'' @ b" using h by (simp add: s_def or_else_def)
  qed
  show ?thesis using run ne ns root segs by blast
qed

theorem slugFromUrl_wellformed_witness:
  "slugFromUrl example_urls ''https://www.thcf.org/'' = Inr ''index''
   \<and> slugFromUrl example_urls ''https://www.thcf.org/news/my-article'' = Inr ''news--my-article''"
proof -
  have a: "example_urls ''https://www.thcf.org/'' = Some (thcf_url ''/'' [] [])"
    by (simp add: example_urls_def)
  have b: "example_urls ''https://www.thcf.org/news/my-article''
             = Some (thcf_url ''/news/my-article'' [] [])"
    by (simp add: example_urls_def)
  have pa: "pathname (thcf_url ''/'' [] []) = ''/''" by (simp add: thcf_url_def)
  from slugFromUrl_wellformed[of example_urls "''https://www.thcf.org/''" "thcf_url ''/'' [] []"] a pa
  have 1: "slugFromUrl example_urls ''https://www.thcf.org/'' = Inr ''index''" by auto
  from slugFromUrl_wellformed[of example_urls "''https://www.thcf.org/news/my-article''"
      "thcf_url ''/news/my-article'' [] []"] b
  obtain s where s: "slugFromUrl example_urls ''https://www.thcf.org/news/my-article'' = Inr s"
    and seg: "\<forall>a b. pathname (thcf_url ''/news/my-article'' [] []) = ''/'' @ a @ ''/'' @ b
                 \<and> a \<noteq> [] \<and> b \<noteq> [] \<and> CHR ''/'' \<notin> set a \<and> CHR ''/'' \<notin> set b
               \<longrightarrow> s = a @ ''--'' @ b"
    by blast
  from seg[rule_format, of "''news''" "''my-article''"] have "s = ''news--my-article''"
    by (simp add: thcf_url_def)
  with s 1 show ?thesis by simp
qed

section \<open>URL normalizer\<close>

lemma strip_trailing_slash_snoc [simp]: "strip_trailing_slash (p @ ''/'') = p"
  by (simp add: strip_trailing_slash_def)

text \<open>
  C2, as the specification states it, fails: the returned string is built from the origin
  and the path only, so a query string of the input is not in it.
\<close>

theorem normalizeUrl_query_counterexample:
  "example_urls ''/about/news/?page=2#top'' = Some (thcf_url ''/about/news/'' ''?page=2'' ''#top'')
   \<and> normalizeUrl example_urls ''/about/news/?page=2#top'' = Some ''https://www.thcf.org/about/news''
   \<and> \<not> suffix ''?page=2'' ''https://www.thcf.org/about/news''"
  by (simp add: normalizeUrl_def example_urls_def thcf_url_def is_download_def
      download_exts_def lower_def to_lower_def or_else_def strip_trailing_slash_def
      suffix_to_prefix Let_def)

text \<open>
  C2, amended. For every href the normalizer accepts, the returned URL is the origin
  followed by the path with exactly one trailing slash stripped, the root path staying
  "/"; the fragment and the query string are both dropped, so the result is the same
  whatever they are.
\<close>

theorem normalizeUrl_canonical:
  assumes "normalizeUrl resolve href = Some r"
  shows "\<exists>u. resolve href = Some u
           \<and> (pathname u = ''/'' \<longrightarrow> r = origin u @ ''/'')
           \<and> (\<forall>p. pathname u = p @ ''/'' \<and> p \<noteq> [] \<longrightarrow> r = origin u @ p)
           \<and> (pathname u \<noteq> [] \<and> last (pathname u) \<noteq> CHR ''/'' \<longrightarrow> r = origin u @ pathname u)
           \<and> (\<forall>q h. normalizeUrl (\<lambda>x. Some (u\<lparr>search := q, hash := h\<rparr>)) href = Some r)"
proof -
  from assms obtain u where u: "resolve href = Some u"
    by (auto simp: normalizeUrl_def split: option.splits)
  define p where "p = or_else (strip_trailing_slash (pathname u)) ''/''"
  from assms u have host: "hostname u = ''www.thcf.org'' \<or> hostname u = ''thcf.org''"
    by (auto simp: normalizeUrl_def split: if_splits)
  from assms u host have nd: "\<not> is_download p"
    by (auto simp: normalizeUrl_def Let_def p_def split: if_splits)
  from assms u host nd have r: "r = origin u @ p"
    by (auto simp: normalizeUrl_def Let_def p_def split: if_splits)
  have root: "pathname u = ''/'' \<longrightarrow> r = origin u @ ''/''"
    by (simp add: r p_def strip_trailing_slash_def or_else_def)
  have one: "\<forall>q. pathname u = q @ ''/'' \<and> q \<noteq> [] \<longrightarrow> r = origin u @ q"
    by (auto simp: r p_def or_else_def)
  have keep: "pathname u \<noteq> [] \<and> last (pathname u) \<noteq> CHR ''/'' \<longrightarrow> r = origin u @ pathname u"
    by (simp add: r p_def strip_trailing_slash_def or_else_def)
  have drop: "\<forall>q h. normalizeUrl (\<lambda>x. Some (u\<lparr>search := q, hash := h\<rparr>)) href = Some r"
    using host nd r by (auto simp: normalizeUrl_def Let_def p_def)
  show ?thesis using u root one keep drop by blast
qed

theorem normalizeUrl_canonical_witness:
  "normalizeUrl example_urls ''https://www.thcf.org/donors/'' = Some ''https://www.thcf.org/donors''
   \<and> normalizeUrl (\<lambda>x. Some ((thcf_url ''/donors/'' [] [])\<lparr>search := ''?a=1'', hash := ''#x''\<rparr>))
        ''https://www.thcf.org/donors/'' = Some ''https://www.thcf.org/donors''"
proof -
  have n: "normalizeUrl example_urls ''https://www.thcf.org/donors/'' = Some ''https://www.thcf.org/donors''"
    by (simp add: normalizeUrl_def example_urls_def thcf_url_def is_download_def
        download_exts_def lower_def to_lower_def or_else_def strip_trailing_slash_def
        suffix_to_prefix Let_def)
  have e: "example_urls ''https://www.thcf.org/donors/'' = Some (thcf_url ''/donors/'' [] [])"
    by (simp add: example_urls_def)
  from normalizeUrl_canonical[of example_urls "''https://www.thcf.org/donors/''"
      "''https://www.thcf.org/donors''"] n e
  show ?thesis by auto
qed

section \<open>Crawl scheduler: frontier invariants\<close>

declare crawl_loop.simps [simp del]

lemma crawl_loop_running: "running e st \<Longrightarrow> crawl_loop e st = crawl_loop e (crawl_step e st)"
  by (subst crawl_loop.simps) simp

lemma crawl_loop_stopped: "\<not> running e st \<Longrightarrow> crawl_loop e st = st"
  by (subst crawl_loop.simps) simp

lemma push_ok: "frontier_ok st \<Longrightarrow> u \<notin> seenInQueue st \<Longrightarrow> frontier_ok (push u st)"
  by (auto simp: frontier_ok_def push_def)

lemma enqueue_new_ok: "frontier_ok st \<Longrightarrow> frontier_ok (enqueue_new r l st)"
  by (simp add: enqueue_new_def push_ok split: option.splits)

lemma enqueue_unseen_ok: "frontier_ok st \<Longrightarrow> frontier_ok (enqueue_unseen r l st)"
  by (simp add: enqueue_unseen_def push_ok split: option.splits)

lemma fold_enqueue_new_ok: "frontier_ok st \<Longrightarrow> frontier_ok (fold (enqueue_new r) ls st)"
  by (induction ls arbitrary: st) (simp_all add: enqueue_new_ok)

lemma fold_enqueue_unseen_ok: "frontier_ok st \<Longrightarrow> frontier_ok (fold (enqueue_unseen r) ls st)"
  by (induction ls arbitrary: st) (simp_all add: enqueue_unseen_ok)

lemma click_through_ok: "frontier_ok st \<Longrightarrow> frontier_ok (click_through r pager n st)"
proof (induction r pager n st rule: click_through.induct)
  case (1 r pager pageNum st)
  show ?case
  proof (cases "pageNum \<le> 20")
    case False
    with "1.prems" show ?thesis by simp
  next
    case True
    show ?thesis
    proof (cases "pager pageNum")
      case (Loaded pageLinks)
      from "1.IH"[OF True Loaded fold_enqueue_unseen_ok[OF "1.prems"]]
      show ?thesis using True Loaded by simp
    qed (use True "1.prems" in simp_all)
  qed
qed

lemma discover_ok: "frontier_ok st \<Longrightarrow> frontier_ok (discover e url st)"
  by (cases "view e url")
    (simp_all add: discover_def click_through_ok fold_enqueue_unseen_ok del: click_through.simps)

lemma fold_discover_ok: "frontier_ok st \<Longrightarrow> frontier_ok (fold (discover e) us st)"
  by (induction us arbitrary: st) (simp_all add: discover_ok)

lemma setup_resume_ok: "frontier_ok st \<Longrightarrow> frontier_ok (setup_resume e st)"
  by (auto simp: setup_resume_def frontier_ok_def split: option.splits)

lemma initial_ok: "frontier_ok initial"
  by (simp add: frontier_ok_def initial_def)

lemma before_loop_ok: "frontier_ok (before_loop e navStructure)"
  by (simp add: before_loop_def Let_def fold_discover_ok fold_enqueue_new_ok
      setup_resume_ok initial_ok)

lemma allUrls_update_ok: "frontier_ok (st\<lparr>allUrls := x\<rparr>) = frontier_ok st"
  by (simp add: frontier_ok_def)

lemma crawl_step_ok:
  assumes "frontier_ok st"
  shows "frontier_ok (crawl_step e st)"
proof (cases "queue st")
  case Nil
  with assms show ?thesis by (simp add: crawl_step_def)
next
  case (Cons url rest)
  have dq: "frontier_ok (st\<lparr>queue := rest\<rparr>)"
    using assms Cons by (auto simp: frontier_ok_def)
  show ?thesis
  proof (cases "url \<in> visited st")
    case True
    with Cons dq show ?thesis by (simp add: crawl_step_def)
  next
    case False
    define st2 where "st2 = st\<lparr>queue := rest, visited := insert url (visited st),
        count := count st + 1, fetched := fetched st @ [url]\<rparr>"
    have ok2: "frontier_ok st2"
      using dq False by (auto simp: frontier_ok_def st2_def)
    have "crawl_step e st =
        (case scrapePage e (count st2) url of None \<Rightarrow> st2
         | Some (title, links) \<Rightarrow>
             (fold (enqueue_new (resolveURL e)) links st2)
               \<lparr>allUrls := allUrls (fold (enqueue_new (resolveURL e)) links st2)
                   @ [(url, classifyPage (parseURL e) url, title)]\<rparr>)"
      using Cons False
      by (simp add: crawl_step_def st2_def Let_def split: option.splits prod.splits)
    then show ?thesis
      using ok2 by (simp add: allUrls_update_ok fold_enqueue_new_ok split: option.splits prod.splits)
  qed
qed

lemma crawl_loop_ok: "frontier_ok st \<Longrightarrow> frontier_ok (crawl_loop e st)"
proof (induction e st rule: crawl_loop.induct)
  case (1 e st)
  show ?case
  proof (cases "running e st")
    case True
    from "1.IH"[OF True crawl_step_ok[OF "1.prems"]] True
    show ?thesis by (simp add: crawl_loop_running)
  next
    case False
    with "1.prems" show ?thesis by (simp add: crawl_loop_stopped)
  qed
qed


lemma setup_resume_kept:
  "kept_out (visited (setup_resume e initial)) (setup_resume e initial)"
  by (simp add: kept_out_def setup_resume_def initial_def split: option.splits)

lemma push_kept: "kept_out V st \<Longrightarrow> kept_out V (push u st)"
  by (simp add: kept_out_def push_def)

lemma enqueue_new_kept: "kept_out V st \<Longrightarrow> kept_out V (enqueue_new r l st)"
  by (simp add: enqueue_new_def push_kept split: option.splits)

lemma enqueue_unseen_kept: "kept_out V st \<Longrightarrow> kept_out V (enqueue_unseen r l st)"
  by (simp add: enqueue_unseen_def push_kept split: option.splits)

lemma fold_enqueue_new_kept: "kept_out V st \<Longrightarrow> kept_out V (fold (enqueue_new r) ls st)"
  by (induction ls arbitrary: st) (simp_all add: enqueue_new_kept)

lemma fold_enqueue_unseen_kept: "kept_out V st \<Longrightarrow> kept_out V (fold (enqueue_unseen r) ls st)"
  by (induction ls arbitrary: st) (simp_all add: enqueue_unseen_kept)

lemma click_through_kept: "kept_out V st \<Longrightarrow> kept_out V (click_through r pager n st)"
proof (induction r pager n st rule: click_through.induct)
  case (1 r pager pageNum st)
  show ?case
  proof (cases "pageNum \<le> 20")
    case False
    with "1.prems" show ?thesis by simp
  next
    case True
    show ?thesis
    proof (cases "pager pageNum")
      case (Loaded pageLinks)
      from "1.IH"[OF True Loaded fold_enqueue_unseen_kept[OF "1.prems"]]
      show ?thesis using True Loaded by simp
    qed (use True "1.prems" in simp_all)
  qed
qed

lemma discover_kept: "kept_out V st \<Longrightarrow> kept_out V (discover e url st)"
  by (cases "view e url")
    (simp_all add: discover_def click_through_kept fold_enqueue_unseen_kept del: click_through.simps)

lemma fold_discover_kept: "kept_out V st \<Longrightarrow> kept_out V (fold (discover e) us st)"
  by (induction us arbitrary: st) (simp_all add: discover_kept)

lemma before_loop_kept:
  "kept_out (visited (setup_resume e initial)) (before_loop e navStructure)"
  by (simp add: before_loop_def Let_def fold_discover_kept fold_enqueue_new_kept
      setup_resume_kept)

lemma allUrls_update_kept: "kept_out V (st\<lparr>allUrls := x\<rparr>) = kept_out V st"
  by (simp add: kept_out_def)

lemma crawl_step_kept:
  assumes "kept_out V st"
  shows "kept_out V (crawl_step e st)"
proof (cases "queue st")
  case Nil
  with assms show ?thesis by (simp add: crawl_step_def)
next
  case (Cons url rest)
  have dq: "kept_out V (st\<lparr>queue := rest\<rparr>)"
    using assms by (simp add: kept_out_def)
  show ?thesis
  proof (cases "url \<in> visited st")
    case True
    with Cons dq show ?thesis by (simp add: crawl_step_def)
  next
    case False
    define st2 where "st2 = st\<lparr>queue := rest, visited := insert url (visited st),
        count := count st + 1, fetched := fetched st @ [url]\<rparr>"
    have ok2: "kept_out V st2"
      using assms False by (auto simp: kept_out_def st2_def)
    have "crawl_step e st =
        (case scrapePage e (count st2) url of None \<Rightarrow> st2
         | Some (title, links) \<Rightarrow>
             (fold (enqueue_new (resolveURL e)) links st2)
               \<lparr>allUrls := allUrls (fold (enqueue_new (resolveURL e)) links st2)
                   @ [(url, classifyPage (parseURL e) url, title)]\<rparr>)"
      using Cons False
      by (simp add: crawl_step_def st2_def Let_def split: option.splits prod.splits)
    then show ?thesis
      using ok2 by (simp add: allUrls_update_kept fold_enqueue_new_kept split: option.splits prod.splits)
  qed
qed

lemma crawl_loop_kept: "kept_out V st \<Longrightarrow> kept_out V (crawl_loop e st)"
proof (induction e st rule: crawl_loop.induct)
  case (1 e st)
  show ?case
  proof (cases "running e st")
    case True
    from "1.IH"[OF True crawl_step_kept[OF "1.prems"]] True
    show ?thesis by (simp add: crawl_loop_running)
  next
    case False
    with "1.prems" show ?thesis by (simp add: crawl_loop_stopped)
  qed
qed

lemma crawl_loop_iterates:
  "\<exists>n. crawl_loop e st = (crawl_step e ^^ n) st
       \<and> (\<forall>k<n. running e ((crawl_step e ^^ k) st))
       \<and> \<not> running e (crawl_loop e st)"
proof (induction e st rule: crawl_loop.induct)
  case (1 e st)
  show ?case
  proof (cases "running e st")
    case False
    then have "crawl_loop e st = (crawl_step e ^^ 0) st \<and> \<not> running e (crawl_loop e st)"
      by (simp add: crawl_loop_stopped)
    then show ?thesis by blast
  next
    case True
    from "1.IH"[OF True] obtain n where
      n: "crawl_loop e (crawl_step e st) = (crawl_step e ^^ n) (crawl_step e st)"
      and r: "\<forall>k<n. running e ((crawl_step e ^^ k) (crawl_step e st))"
      and s: "\<not> running e (crawl_loop e (crawl_step e st))" by blast
    have eq: "crawl_loop e st = crawl_loop e (crawl_step e st)"
      using True by (rule crawl_loop_running)
    have a: "crawl_loop e st = (crawl_step e ^^ Suc n) st"
      using n eq by (simp add: funpow_swap1)
    have b: "\<forall>k<Suc n. running e ((crawl_step e ^^ k) st)"
    proof (intro allI impI)
      fix k assume k: "k < Suc n"
      show "running e ((crawl_step e ^^ k) st)"
      proof (cases k)
        case 0
        then show ?thesis using True by simp
      next
        case (Suc j)
        then have "j < n" using k by simp
        with r have "running e ((crawl_step e ^^ j) (crawl_step e st))" by blast
        then show ?thesis using Suc by (simp add: funpow_swap1)
      qed
    qed
    have c: "\<not> running e (crawl_loop e st)" using s eq by simp
    from a b c show ?thesis by blast
  qed
qed

lemma crawl_step_count:
  assumes "running e st" and "MAX_PAGES e = Some b"
  shows "int (count (crawl_step e st)) \<le> b"
proof -
  from assms obtain url rest where q: "queue st = url # rest" and lt: "int (count st) < b"
    by (auto simp: running_def neq_Nil_conv)
  show ?thesis
  proof (cases "url \<in> visited st")
    case True
    then show ?thesis using q lt by (simp add: crawl_step_def)
  next
    case False
    then have "count (crawl_step e st) = count st + 1"
      using q by (simp add: crawl_step_def Let_def split: option.splits prod.splits)
    then show ?thesis using lt by simp
  qed
qed


lemma run_states:
  assumes "run e = Inr st"
  obtains navStructure where "nav e = Some navStructure"
    and "st = crawl_loop e (before_loop e navStructure)"
  using assms by (auto simp: run_def split: option.splits)

section \<open>Crawl scheduler: resume\<close>

lemma visited_push [simp]: "visited (push u st) = visited st"
  by (simp add: push_def)

lemma visited_enqueue_new [simp]: "visited (enqueue_new r l st) = visited st"
  by (simp add: enqueue_new_def split: option.splits)

lemma enqueue_new_grows:
  "seenInQueue st \<subseteq> seenInQueue (enqueue_new r l st)
   \<and> set (queue st) \<subseteq> set (queue (enqueue_new r l st))"
  by (auto simp: enqueue_new_def push_def split: option.splits)

lemma fold_enqueue_new_grows:
  "seenInQueue st \<subseteq> seenInQueue (fold (enqueue_new r) ls st)
   \<and> set (queue st) \<subseteq> set (queue (fold (enqueue_new r) ls st))"
proof (induction ls arbitrary: st)
  case Nil
  show ?case by simp
next
  case (Cons x xs)
  from enqueue_new_grows[of st r x] Cons.IH[of "enqueue_new r x st"]
  show ?case by auto
qed

lemma enqueue_new_fresh:
  "n \<in> seenInQueue (enqueue_new r l st) \<Longrightarrow> n \<notin> seenInQueue st
   \<Longrightarrow> n \<in> set (queue (enqueue_new r l st))"
  by (auto simp: enqueue_new_def push_def split: option.splits if_splits)

lemma enqueue_new_adds:
  "normalizeUrl r l = Some n \<Longrightarrow> n \<notin> visited st \<Longrightarrow> n \<in> seenInQueue (enqueue_new r l st)"
  by (auto simp: enqueue_new_def push_def)

lemma fold_enqueue_new_adds:
  assumes "l \<in> set ls" and "normalizeUrl r l = Some n" and "n \<notin> visited st"
  shows "n \<in> seenInQueue (fold (enqueue_new r) ls st)
         \<and> (n \<notin> seenInQueue st \<longrightarrow> n \<in> set (queue (fold (enqueue_new r) ls st)))"
  using assms
proof (induction ls arbitrary: st)
  case Nil
  then show ?case by simp
next
  case (Cons x xs)
  define st' where "st' = enqueue_new r x st"
  have vis: "n \<notin> visited st'" using Cons.prems(3) by (simp add: st'_def)
  have mono: "seenInQueue st' \<subseteq> seenInQueue (fold (enqueue_new r) xs st')
              \<and> set (queue st') \<subseteq> set (queue (fold (enqueue_new r) xs st'))"
    by (rule fold_enqueue_new_grows)
  have fresh: "n \<in> seenInQueue st' \<Longrightarrow> n \<notin> seenInQueue st \<Longrightarrow> n \<in> set (queue st')"
    unfolding st'_def by (rule enqueue_new_fresh)
  show ?case
  proof (cases "l = x")
    case True
    then have "n \<in> seenInQueue st'"
      using Cons.prems(2,3) by (simp add: st'_def enqueue_new_adds)
    with mono fresh show ?thesis by (auto simp: st'_def)
  next
    case False
    then have "l \<in> set xs" using Cons.prems(1) by simp
    from Cons.IH[OF this Cons.prems(2) vis]
    have ih: "n \<in> seenInQueue (fold (enqueue_new r) xs st')
              \<and> (n \<notin> seenInQueue st' \<longrightarrow> n \<in> set (queue (fold (enqueue_new r) xs st')))" .
    with mono fresh show ?thesis by (auto simp: st'_def)
  qed
qed

lemma crawl_step_fetches:
  assumes "queue s = url # rest" and "url \<notin> visited s"
  shows "url \<in> set (fetched (crawl_step e s))
         \<and> (\<forall>title links l n. scrapePage e (count s + 1) url = Some (title, links)
               \<and> l \<in> set links \<and> normalizeUrl (resolveURL e) l = Some n
               \<and> n \<notin> visited s \<and> n \<noteq> url \<and> n \<notin> seenInQueue s
             \<longrightarrow> n \<in> set (queue (crawl_step e s)))"
proof -
  define st2 where "st2 = s\<lparr>queue := rest, visited := insert url (visited s),
      count := count s + 1, fetched := fetched s @ [url]\<rparr>"
  have step: "crawl_step e s =
      (case scrapePage e (count s + 1) url of None \<Rightarrow> st2
       | Some (title, links) \<Rightarrow>
           (fold (enqueue_new (resolveURL e)) links st2)
             \<lparr>allUrls := allUrls (fold (enqueue_new (resolveURL e)) links st2)
                 @ [(url, classifyPage (parseURL e) url, title)]\<rparr>)"
    using assms by (simp add: crawl_step_def st2_def Let_def split: option.splits prod.splits)
  have f: "url \<in> set (fetched (crawl_step e s))"
  proof (cases "scrapePage e (count s + 1) url")
    case None
    then show ?thesis by (simp add: step st2_def)
  next
    case (Some tl)
    obtain title links where tl: "tl = (title, links)" by (cases tl)
    have "fetched (fold (enqueue_new (resolveURL e)) links st2) = fetched st2"
      by (induction links arbitrary: st2)
        (simp_all add: enqueue_new_def push_def split: option.splits)
    then show ?thesis using Some tl by (simp add: step st2_def)
  qed
  have h: "\<forall>title links l n. scrapePage e (count s + 1) url = Some (title, links)
               \<and> l \<in> set links \<and> normalizeUrl (resolveURL e) l = Some n
               \<and> n \<notin> visited s \<and> n \<noteq> url \<and> n \<notin> seenInQueue s
             \<longrightarrow> n \<in> set (queue (crawl_step e s))"
  proof (intro allI impI)
    fix title links l n
    assume a: "scrapePage e (count s + 1) url = Some (title, links)
               \<and> l \<in> set links \<and> normalizeUrl (resolveURL e) l = Some n
               \<and> n \<notin> visited s \<and> n \<noteq> url \<and> n \<notin> seenInQueue s"
    then have "n \<notin> visited st2" and "n \<notin> seenInQueue st2" by (simp_all add: st2_def)
    with fold_enqueue_new_adds[of l links "resolveURL e" n st2] a
    have "n \<in> set (queue (fold (enqueue_new (resolveURL e)) links st2))" by blast
    then show "n \<in> set (queue (crawl_step e s))" using a by (simp add: step)
  qed
  from f h show ?thesis by blast
qed

text \<open>
  C6. In resume mode no URL of the earlier site-map is fetched by the crawl loop. A URL
  that is not in the visited set stays eligible: when a page fetched in this run links
  to it and it was not queued before, it is queued, and when the loop takes an
  unvisited URL from the queue it fetches it.
\<close>

theorem resume_never_refetches:
  assumes "run e = Inr st" and "RESUME e" and "sitemap e = Some existing"
  shows "set existing \<inter> set (fetched st) = {}
         \<and> (\<forall>s url rest title links l n.
               queue s = url # rest \<and> url \<notin> visited s
               \<and> scrapePage e (count s + 1) url = Some (title, links)
               \<and> l \<in> set links \<and> normalizeUrl (resolveURL e) l = Some n
               \<and> n \<notin> visited s \<and> n \<noteq> url \<and> n \<notin> seenInQueue s
             \<longrightarrow> n \<in> set (queue (crawl_step e s)))
         \<and> (\<forall>s url rest. queue s = url # rest \<and> url \<notin> visited s
             \<longrightarrow> url \<in> set (fetched (crawl_step e s)))"
proof -
  from assms(1) obtain navStructure where st: "st = crawl_loop e (before_loop e navStructure)"
    by (rule run_states)
  have v: "visited (setup_resume e initial) = set existing"
    using assms(2,3) by (simp add: setup_resume_def initial_def)
  have "kept_out (set existing) st"
    unfolding st using before_loop_kept[of e navStructure] v
    by (simp add: crawl_loop_kept)
  then have a: "set existing \<inter> set (fetched st) = {}"
    by (auto simp: kept_out_def)
  from a crawl_step_fetches[of _ _ _ e] show ?thesis by blast
qed

lemma example_run_fetched:
  "map_sum id fetched (run example_env)
     = Inr [''https://www.thcf.org/'', ''https://www.thcf.org/donors/make-a-gift'']"
  by code_simp

theorem resume_never_refetches_witness:
  "\<exists>st. run example_env = Inr st \<and> ''https://www.thcf.org/donors'' \<notin> set (fetched st)"
proof -
  have r: "run example_env = Inr (crawl_loop example_env (before_loop example_env example_nav))"
    by (simp add: run_def example_env_def)
  have m: "RESUME example_env" and f: "sitemap example_env = Some [''https://www.thcf.org/donors'']"
    by (simp_all add: example_env_def)
  from resume_never_refetches[OF r m f] r show ?thesis by auto
qed

section \<open>Crawl scheduler: the frontier over a run\<close>

lemma push_acc: "accounted V st \<Longrightarrow> accounted V (push u st)"
  by (auto simp: accounted_def push_def)

lemma enqueue_new_acc: "accounted V st \<Longrightarrow> accounted V (enqueue_new r l st)"
  by (simp add: enqueue_new_def push_acc split: option.splits)

lemma enqueue_unseen_acc: "accounted V st \<Longrightarrow> accounted V (enqueue_unseen r l st)"
  by (simp add: enqueue_unseen_def push_acc split: option.splits)

lemma fold_enqueue_new_acc: "accounted V st \<Longrightarrow> accounted V (fold (enqueue_new r) ls st)"
  by (induction ls arbitrary: st) (simp_all add: enqueue_new_acc)

lemma fold_enqueue_unseen_acc: "accounted V st \<Longrightarrow> accounted V (fold (enqueue_unseen r) ls st)"
  by (induction ls arbitrary: st) (simp_all add: enqueue_unseen_acc)

lemma click_through_acc: "accounted V st \<Longrightarrow> accounted V (click_through r pager n st)"
proof (induction r pager n st rule: click_through.induct)
  case (1 r pager pageNum st)
  show ?case
  proof (cases "pageNum \<le> 20")
    case False
    with "1.prems" show ?thesis by simp
  next
    case True
    show ?thesis
    proof (cases "pager pageNum")
      case (Loaded pageLinks)
      from "1.IH"[OF True Loaded fold_enqueue_unseen_acc[OF "1.prems"]]
      show ?thesis using True Loaded by simp
    qed (use True "1.prems" in simp_all)
  qed
qed

lemma discover_acc: "accounted V st \<Longrightarrow> accounted V (discover e url st)"
  by (cases "view e url")
    (simp_all add: discover_def click_through_acc fold_enqueue_unseen_acc del: click_through.simps)

lemma fold_discover_acc: "accounted V st \<Longrightarrow> accounted V (fold (discover e) us st)"
  by (induction us arbitrary: st) (simp_all add: discover_acc)

lemma setup_resume_acc:
  "accounted (visited (setup_resume e initial)) (setup_resume e initial)"
  by (simp add: accounted_def setup_resume_def initial_def split: option.splits)

lemma before_loop_acc:
  "accounted (visited (setup_resume e initial)) (before_loop e navStructure)"
  by (simp add: before_loop_def Let_def fold_discover_acc fold_enqueue_new_acc setup_resume_acc)

lemma fetched_fold_enqueue_new [simp]:
  "fetched (fold (enqueue_new r) ls st) = fetched st"
  by (induction ls arbitrary: st) (simp_all add: enqueue_new_def push_def split: option.splits)

lemma visited_fold_enqueue_new [simp]:
  "visited (fold (enqueue_new r) ls st) = visited st"
  by (induction ls arbitrary: st) simp_all

lemma crawl_step_marks:
  assumes "queue s = url # rest"
  shows "url \<in> visited (crawl_step e s)
         \<and> (url \<notin> visited s \<longrightarrow> fetched (crawl_step e s) = fetched s @ [url]
               \<and> visited (crawl_step e s) = insert url (visited s))
         \<and> (url \<in> visited s \<longrightarrow> fetched (crawl_step e s) = fetched s
               \<and> visited (crawl_step e s) = visited s)"
  using assms
  by (auto simp: crawl_step_def Let_def split: option.splits prod.splits)

lemma allUrls_update_acc: "accounted V (st\<lparr>allUrls := x\<rparr>) = accounted V st"
  by (simp add: accounted_def)

lemma crawl_step_acc:
  assumes "accounted V st"
  shows "accounted V (crawl_step e st)"
proof (cases "queue st")
  case Nil
  with assms show ?thesis by (simp add: crawl_step_def)
next
  case (Cons url rest)
  show ?thesis
  proof (cases "url \<in> visited st")
    case True
    with Cons assms show ?thesis by (auto simp: crawl_step_def accounted_def)
  next
    case False
    define st2 where "st2 = st\<lparr>queue := rest, visited := insert url (visited st),
        count := count st + 1, fetched := fetched st @ [url]\<rparr>"
    have ok2: "accounted V st2"
      using assms Cons by (auto simp: accounted_def st2_def)
    have "crawl_step e st =
        (case scrapePage e (count st2) url of None \<Rightarrow> st2
         | Some (title, links) \<Rightarrow>
             (fold (enqueue_new (resolveURL e)) links st2)
               \<lparr>allUrls := allUrls (fold (enqueue_new (resolveURL e)) links st2)
                   @ [(url, classifyPage (parseURL e) url, title)]\<rparr>)"
      using Cons False
      by (simp add: crawl_step_def st2_def Let_def split: option.splits prod.splits)
    then show ?thesis
      using ok2 by (simp add: allUrls_update_acc fold_enqueue_new_acc split: option.splits prod.splits)
  qed
qed

lemma crawl_loop_acc: "accounted V st \<Longrightarrow> accounted V (crawl_loop e st)"
proof (induction e st rule: crawl_loop.induct)
  case (1 e st)
  show ?case
  proof (cases "running e st")
    case True
    from "1.IH"[OF True crawl_step_acc[OF "1.prems"]] True
    show ?thesis by (simp add: crawl_loop_running)
  next
    case False
    with "1.prems" show ?thesis by (simp add: crawl_loop_stopped)
  qed
qed

text \<open>
  What every finished run keeps. No URL is pushed onto the queue twice and none is fetched
  twice; the visited set is what was visited before the run together with what the loop
  fetched, and the two do not overlap; a URL that has left the queue is visited. One
  iteration of the loop leaves the URL it takes from the queue in the visited set, and
  adds it to the fetches once exactly when it was not visited before. Every gate leaves
  the state as it is for a link whose normal form was queued before, and the gate of
  seeds, navigation and harvested links also for one that was visited.
\<close>

theorem frontier_of_every_run:
  assumes "run e = Inr st"
  shows "distinct (pushed st) \<and> distinct (fetched st) \<and> distinct (queue st)
         \<and> set (queue st) \<subseteq> set (pushed st)
         \<and> visited st = visited (setup_resume e initial) \<union> set (fetched st)
         \<and> visited (setup_resume e initial) \<inter> set (fetched st) = {}
         \<and> (\<forall>u \<in> set (pushed st). u \<notin> set (queue st) \<longrightarrow> u \<in> visited st)
         \<and> (\<forall>s url rest. queue s = url # rest
               \<longrightarrow> url \<in> visited (crawl_step e s)
                   \<and> (url \<notin> visited s \<longrightarrow> fetched (crawl_step e s) = fetched s @ [url]
                         \<and> visited (crawl_step e s) = insert url (visited s))
                   \<and> (url \<in> visited s \<longrightarrow> fetched (crawl_step e s) = fetched s
                         \<and> visited (crawl_step e s) = visited s))
         \<and> (\<forall>l u s. normalizeUrl (resolveURL e) l = Some u \<and> u \<in> seenInQueue s
               \<longrightarrow> enqueue_new (resolveURL e) l s = s \<and> enqueue_unseen (resolveURL e) l s = s)
         \<and> (\<forall>l u s. normalizeUrl (resolveURL e) l = Some u \<and> u \<in> visited s
               \<longrightarrow> enqueue_new (resolveURL e) l s = s)"
proof -
  from assms obtain navStructure where st: "st = crawl_loop e (before_loop e navStructure)"
    by (rule run_states)
  have "frontier_ok st"
    unfolding st by (rule crawl_loop_ok) (rule before_loop_ok)
  then have hist: "distinct (pushed st) \<and> distinct (fetched st) \<and> distinct (queue st)
         \<and> set (queue st) \<subseteq> set (pushed st)"
    by (simp add: frontier_ok_def)
  have "accounted (visited (setup_resume e initial)) st"
    unfolding st by (rule crawl_loop_acc) (rule before_loop_acc)
  then have acc: "visited st = visited (setup_resume e initial) \<union> set (fetched st)
         \<and> (\<forall>u \<in> set (pushed st). u \<notin> set (queue st) \<longrightarrow> u \<in> visited st)"
    by (auto simp: accounted_def)
  have "kept_out (visited (setup_resume e initial)) st"
    unfolding st by (rule crawl_loop_kept) (rule before_loop_kept)
  then have kept: "visited (setup_resume e initial) \<inter> set (fetched st) = {}"
    by (auto simp: kept_out_def)
  have step: "\<forall>s url rest. queue s = url # rest
               \<longrightarrow> url \<in> visited (crawl_step e s)
                   \<and> (url \<notin> visited s \<longrightarrow> fetched (crawl_step e s) = fetched s @ [url]
                         \<and> visited (crawl_step e s) = insert url (visited s))
                   \<and> (url \<in> visited s \<longrightarrow> fetched (crawl_step e s) = fetched s
                         \<and> visited (crawl_step e s) = visited s)"
    using crawl_step_marks by blast
  have seen: "\<forall>l u s. normalizeUrl (resolveURL e) l = Some u \<and> u \<in> seenInQueue s
               \<longrightarrow> enqueue_new (resolveURL e) l s = s \<and> enqueue_unseen (resolveURL e) l s = s"
    by (simp add: enqueue_new_def enqueue_unseen_def)
  have vis: "\<forall>l u s. normalizeUrl (resolveURL e) l = Some u \<and> u \<in> visited s
               \<longrightarrow> enqueue_new (resolveURL e) l s = s"
    by (simp add: enqueue_new_def)
  from hist acc kept step seen vis show ?thesis by blast
qed

theorem frontier_of_every_run_witness:
  "\<exists>st. run example_env = Inr st \<and> distinct (pushed st) \<and> distinct (fetched st)
        \<and> visited st = visited (setup_resume example_env initial) \<union> set (fetched st)"
proof -
  have r: "run example_env = Inr (crawl_loop example_env (before_loop example_env example_nav))"
    by (simp add: run_def example_env_def)
  from frontier_of_every_run[OF r] r show ?thesis by blast
qed



section \<open>Crawl scheduler: page budget\<close>

lemma counts_within_budget:
  assumes "MAX_PAGES e = Some b" and "int (count st) \<le> b"
    and "\<forall>k<n. running e ((crawl_step e ^^ k) st)"
  shows "int (count ((crawl_step e ^^ n) st)) \<le> b"
  using assms(3)
proof (induction n)
  case 0
  show ?case using assms(2) by simp
next
  case (Suc n)
  then have "running e ((crawl_step e ^^ n) st)" by simp
  from crawl_step_count[OF this assms(1)] show ?case by simp
qed

text \<open>
  C9. With a budget that is a non-negative integer and the counter at zero, as \<open>run\<close>
  starts it, the crawl loop comes to an end after some number \<open>n\<close> of iterations: it
  goes on while the queue is not empty and the count is below the budget, and it stops
  at the first state where the queue is empty or the count has reached the budget. The
  count is at most the budget after every iteration.
\<close>

theorem crawl_loop_stops_at_budget:
  assumes "MAX_PAGES e = Some b" and "0 \<le> b" and "count st = 0"
  shows "\<exists>n. crawl_loop e st = (crawl_step e ^^ n) st
           \<and> (\<forall>k<n. queue ((crawl_step e ^^ k) st) \<noteq> []
                      \<and> int (count ((crawl_step e ^^ k) st)) < b)
           \<and> (queue (crawl_loop e st) = [] \<or> int (count (crawl_loop e st)) = b)
           \<and> (\<forall>k\<le>n. int (count ((crawl_step e ^^ k) st)) \<le> b)"
proof -
  from crawl_loop_iterates[of e st] obtain n where
    n: "crawl_loop e st = (crawl_step e ^^ n) st"
    and r: "\<forall>k<n. running e ((crawl_step e ^^ k) st)"
    and s: "\<not> running e (crawl_loop e st)" by blast
  have c0: "int (count st) \<le> b" using assms(2,3) by simp
  have bound: "\<forall>k\<le>n. int (count ((crawl_step e ^^ k) st)) \<le> b"
  proof (intro allI impI)
    fix k assume "k \<le> n"
    with r have "\<forall>j<k. running e ((crawl_step e ^^ j) st)" by simp
    from counts_within_budget[OF assms(1) c0 this]
    show "int (count ((crawl_step e ^^ k) st)) \<le> b" .
  qed
  have go: "\<forall>k<n. queue ((crawl_step e ^^ k) st) \<noteq> []
                      \<and> int (count ((crawl_step e ^^ k) st)) < b"
    using r assms(1) by (simp add: running_def)
  have "int (count (crawl_loop e st)) \<le> b" using bound n by simp
  with s assms(1) have stop: "queue (crawl_loop e st) = [] \<or> int (count (crawl_loop e st)) = b"
    by (auto simp: running_def)
  from n go stop bound show ?thesis by blast
qed

lemma crawl_loop_without_budget:
  "MAX_PAGES e = None \<or> (\<exists>b. MAX_PAGES e = Some b \<and> b \<le> 0) \<Longrightarrow> crawl_loop e st = st"
  by (rule crawl_loop_stopped) (auto simp: running_def)

theorem crawl_loop_stops_at_budget_witness:
  "\<exists>n. crawl_loop example_env (initial\<lparr>queue := [''a'', ''b'', ''c'']\<rparr>)
          = (crawl_step example_env ^^ n) (initial\<lparr>queue := [''a'', ''b'', ''c'']\<rparr>)
      \<and> (queue (crawl_loop example_env (initial\<lparr>queue := [''a'', ''b'', ''c'']\<rparr>)) = []
         \<or> int (count (crawl_loop example_env (initial\<lparr>queue := [''a'', ''b'', ''c'']\<rparr>))) = 2)"
proof -
  have m: "MAX_PAGES example_env = Some 2" by (simp add: example_env_def)
  have c: "count (initial\<lparr>queue := [''a'', ''b'', ''c'']\<rparr>) = 0" by (simp add: initial_def)
  from crawl_loop_stops_at_budget[OF m _ c] show ?thesis by auto
qed

section \<open>Field extractors: absent elements\<close>

lemma orE_None [simp]: "orE None d = d"
  by (simp add: orE_def)

lemma text_of_None [simp]: "text_of None = None"
  by (simp add: text_of_def opt_chain_def)

lemma opt_chain_None [simp]: "opt_chain None p = None"
  by (simp add: opt_chain_def)

text \<open>
  C8. Every member access of the extractors on a value that can be \<open>null\<close> is an
  optional chain, so each extractor is a total function from the page to its record and
  has no error branch. On a page where nothing matches, the extractor of every content
  type returns its record with every field empty; and field by field, for the news,
  staff and generic extractors, a selector that matches nothing leaves the empty string
  or the empty list in the field it feeds.
\<close>

theorem extraction_defaults:
  \<open>((\<forall>sel. querySelector doc sel = None) \<and> (\<forall>sel. querySelectorAll doc sel = [])
      \<longrightarrow> getExtractor t doc = defaults t)
   \<and> (querySelector doc ''h1'' = None
      \<longrightarrow> news_title (extractNews doc) = [] \<and> gp_title (extractGenericPage doc) = []
          \<and> lab_title (extractScholarship doc) = [] \<and> lab_title (extractGrant doc) = [])
   \<and> (querySelector doc ''article, .entry-content, .post-content, main .content, main'' = None
      \<longrightarrow> news_body (extractNews doc) = [] \<and> news_bodyText (extractNews doc) = [])
   \<and> (querySelector doc ''time, .date, .post-date, [datetime]'' = None
      \<longrightarrow> news_date (extractNews doc) = [])
   \<and> (querySelector doc ''.author, .byline, [rel="author"]'' = None
      \<longrightarrow> news_author (extractNews doc) = [])
   \<and> (querySelector doc ''.category, .tag, .post-category'' = None
      \<longrightarrow> news_category (extractNews doc) = [])
   \<and> (querySelector doc ''article img, .post-content img, .hero img, main img'' = None
      \<longrightarrow> news_featuredImage (extractNews doc) = [])
   \<and> (querySelectorAll doc ''article img, main img'' = []
      \<longrightarrow> news_images (extractNews doc) = [] \<and> gp_images (extractGenericPage doc) = [])
   \<and> (querySelectorAll doc
         ''.staff-card, .team-member, .card, [class*="staff"], [class*="team"]'' = []
      \<longrightarrow> sl_members (extractStaffListing doc) = [])
   \<and> (querySelector doc ''main'' = None
      \<longrightarrow> sl_body (extractStaffListing doc) = [] \<and> bl_body (extractBoardListing doc) = [])
   \<and> (querySelector doc ''article, main .content, .page-content, main'' = None
      \<longrightarrow> gp_body (extractGenericPage doc) = [] \<and> gp_bodyText (extractGenericPage doc) = [])
   \<and> (querySelector doc ''aside, .sidebar'' = None
      \<longrightarrow> gp_sidebar (extractGenericPage doc) = [])
   \<and> (\<forall>cardEl name. el_querySelector cardEl = (\<lambda>sel. if sel = ''h2, h3, h4, .name'' then Some name else None)
         \<and> trim (textContent name) \<noteq> []
      \<longrightarrow> staff_card cardEl [] =
            [\<lparr>sm_name = trim (textContent name), sm_jobTitle = [], sm_photo = [],
              sm_email = [], sm_phone = []\<rparr>])\<close>
  by (simp add: getExtractor_def defaults_def extractNews_def extractGenericPage_def
      extractScholarship_def extractGrant_def extractLabelled_def extractStaffListing_def
      extractBoardListing_def content_images_def staff_card_def Let_def text_of_def opt_chain_def orE_def)


theorem extraction_defaults_witness:
  "getExtractor ''staff-listing'' empty_document = StaffData \<lparr>sl_members = [], sl_body = []\<rparr>
   \<and> getExtractor ''news'' empty_document = defaults ''news''
   \<and> gp_title (extractGenericPage empty_document) = []
   \<and> news_images (extractNews empty_document) = []"
  using extraction_defaults[of empty_document "''staff-listing''"]
    extraction_defaults[of empty_document "''news''"]
  by (simp add: empty_document_def defaults_def)

section \<open>Cleaner: a second pass\<close>

lemma find_list_none:
  "(\<forall>cx tag as cs f. P cx (Elem tag as cs) f = Q tag as)
   \<Longrightarrow> (find_list P cx f ns = None) = (\<not> occurs Q ns)"
  by (induction P cx f ns rule: find_list.induct) (auto split: option.splits)

lemma occurs_append: "occurs Q (xs @ ys) = (occurs Q xs \<or> occurs Q ys)"
  by (induction Q xs rule: occurs.induct) auto

lemma occurs_remove_list: "occurs Q (remove_list R cx f ns) \<Longrightarrow> occurs Q ns"
  by (induction R cx f ns rule: remove_list.induct) (auto simp: occurs_append split: if_splits)

lemma matches_tag_class:
  "matches (tag_class t c) cx (Elem tag as cs) f = has_tag_class t c tag as"
  by (simp add: tag_class_def has_tag_class_def)

lemma select_first_none:
  "(select_first (tag_class t c) d = None) = (\<not> occurs (has_tag_class t c) d)"
  unfolding select_first_def
  by (rule find_list_none) (simp add: matches_tag_class)

lemma select_first_remove:
  "select_first (tag_class t c) d = None \<Longrightarrow> select_first (tag_class t c) (remove sel d) = None"
  unfolding select_first_none remove_def using occurs_remove_list by blast

lemma select_first_removals:
  "select_first (tag_class t c) d = None
   \<Longrightarrow> select_first (tag_class t c) (fold remove sels d) = None"
  by (induction sels arbitrary: d) (simp_all add: select_first_remove)

lemma or_else_empty [simp]: "or_else s [] = s"
  by (simp add: or_else_def)

text \<open>
  C4, as the specification states it, fails for each of the three cleaners: they return
  the inside of the main-content section (for news, a serialised document of it), so on
  their own output, which has no such section any more, they do not return it again.
\<close>

theorem cleaner_twice_counterexample:
  "cleanScholarshipBody parse_simple ''<section class=main-content><p>Hi</p></section>'' = ''<p>Hi</p>''
   \<and> cleanScholarshipBody parse_simple ''<p>Hi</p>'' = []
   \<and> cleanNewsBody parse_simple ''<section class=main-content><p>Hi</p></section>''
       = ''<html><head></head><body><p>Hi</p></body></html>''
   \<and> cleanNewsBody parse_simple ''<html><head></head><body><p>Hi</p></body></html>'' = []
   \<and> cleanPageBody parse_simple ''<section class=main-content><p>Hi</p></section>'' = ''<p>Hi</p>''
   \<and> cleanPageBody parse_simple ''<p>Hi</p>'' = ''<html><head></head><body><p>Hi</p></body></html>''"
  by code_simp

text \<open>
  C4, amended. Cleaning is not a projection. When the cleaned output, parsed again, holds
  no main-content section (and, for news and generic pages, no sub-content section), a
  second pass of the news or scholarship cleaner returns the empty string, and a second
  pass of the generic page cleaner on non-empty output returns the serialised whole
  document that is left after its removals, trimmed.
\<close>

theorem cleaner_second_pass:
  "(select_first (tag_class ''section'' ''main-content'') (load (cleanScholarshipBody load raw)) = None
      \<longrightarrow> cleanScholarshipBody load (cleanScholarshipBody load raw) = [])
   \<and> (select_first (tag_class ''section'' ''main-content'') (load (cleanNewsBody load raw)) = None
       \<and> select_first (tag_class ''section'' ''sub-content'') (load (cleanNewsBody load raw)) = None
      \<longrightarrow> cleanNewsBody load (cleanNewsBody load raw) = [])
   \<and> (select_first (tag_class ''section'' ''main-content'') (load (cleanPageBody load raw)) = None
       \<and> select_first (tag_class ''section'' ''sub-content'') (load (cleanPageBody load raw)) = None
       \<and> cleanPageBody load raw \<noteq> []
      \<longrightarrow> cleanPageBody load (cleanPageBody load raw)
            = trim (root_html (fold remove page_removed (load (cleanPageBody load raw)))))"
proof (intro conjI impI)
  define y where "y = cleanScholarshipBody load raw"
  assume "select_first (tag_class ''section'' ''main-content'') (load (cleanScholarshipBody load raw)) = None"
  then have "select_first (tag_class ''section'' ''main-content'') (load y) = None"
    by (simp add: y_def)
  then have "cleanScholarshipBody load y = []"
    by (simp add: cleanScholarshipBody_def[of load y] Let_def html_of_def select_first_removals)
  then show "cleanScholarshipBody load (cleanScholarshipBody load raw) = []"
    by (simp add: y_def)
next
  define y where "y = cleanNewsBody load raw"
  assume "select_first (tag_class ''section'' ''main-content'') (load (cleanNewsBody load raw)) = None
       \<and> select_first (tag_class ''section'' ''sub-content'') (load (cleanNewsBody load raw)) = None"
  then have "select_first (tag_class ''section'' ''main-content'') (load y) = None"
    and "select_first (tag_class ''section'' ''sub-content'') (load y) = None"
    by (simp_all add: y_def)
  then have "cleanNewsBody load y = []"
    by (simp add: cleanNewsBody_def[of load y] Let_def html_of_def select_first_removals trim_def)
  then show "cleanNewsBody load (cleanNewsBody load raw) = []"
    by (simp add: y_def)
next
  define y where "y = cleanPageBody load raw"
  assume "select_first (tag_class ''section'' ''main-content'') (load (cleanPageBody load raw)) = None
       \<and> select_first (tag_class ''section'' ''sub-content'') (load (cleanPageBody load raw)) = None
       \<and> cleanPageBody load raw \<noteq> []"
  then have "select_first (tag_class ''section'' ''main-content'') (load y) = None"
    and "select_first (tag_class ''section'' ''sub-content'') (load y) = None"
    and "y \<noteq> []"
    by (simp_all add: y_def)
  then have "cleanPageBody load y = trim (root_html (fold remove page_removed (load y)))"
    by (simp add: cleanPageBody_def[of load y] Let_def html_of_def select_first_removals)
  then show "cleanPageBody load (cleanPageBody load raw)
            = trim (root_html (fold remove page_removed (load (cleanPageBody load raw))))"
    by (simp add: y_def)
qed

theorem cleaner_second_pass_witness:
  "cleanScholarshipBody parse_simple
     (cleanScholarshipBody parse_simple ''<section class=main-content><p>Hi</p></section>'') = []
   \<and> cleanNewsBody parse_simple
     (cleanNewsBody parse_simple ''<section class=main-content><p>Hi</p></section>'') = []"
proof -
  have a: "select_first (tag_class ''section'' ''main-content'')
             (parse_simple (cleanScholarshipBody parse_simple
                ''<section class=main-content><p>Hi</p></section>'')) = None"
    by code_simp
  have b: "select_first (tag_class ''section'' ''main-content'')
             (parse_simple (cleanNewsBody parse_simple
                ''<section class=main-content><p>Hi</p></section>'')) = None
           \<and> select_first (tag_class ''section'' ''sub-content'')
             (parse_simple (cleanNewsBody parse_simple
                ''<section class=main-content><p>Hi</p></section>'')) = None"
    by code_simp
  from cleaner_second_pass[of parse_simple "''<section class=main-content><p>Hi</p></section>''"]
    a b show ?thesis by blast
qed

section \<open>Structured field parser\<close>

lemma parse_simple_roundtrip_body:
  "parse_simple roundtrip_body =
     [Elem ''html'' []
       [Elem ''head'' [] [],
        Elem ''body'' []
         [Elem ''p'' []
           [Text ''Intro text.'', Elem ''br'' [] [], Elem ''br'' [] [],
            Elem ''strong'' [] [Text ''Eligibility:'']],
          Elem ''ul'' [] [Elem ''li'' [] [Text ''GPA 3.0''], Elem ''li'' [] [Text ''Resident'']],
          Elem ''p'' [] [Elem ''strong'' [] [Text ''Amount:''], Text '' $1,000''],
          Elem ''p'' [] [Elem ''strong'' [] [Text ''Deadline:''], Text '' March 1'']]]]"
  by code_simp

text \<open>
  C1, as the specification states it, fails: the parser looks for the main-content
  section first, the fragment of the round-trip example has none, and the result is the
  empty object.
\<close>

theorem parse_bare_fragment_counterexample:
  "parseScholarshipFields parse_simple roundtrip_body = None"
  by code_simp

text \<open>
  C1, amended. For a body whose main-content section holds the markup of the round-trip
  example, the parser returns the description \<open><p>Intro text.<br></p>\<close>, which contains
  "Intro text.", the eligibility list "GPA 3.0", "Resident", the amount "$1,000" and the
  deadline "March 1".
\<close>

theorem parse_roundtrip_body_in_main_section:
  "parseScholarshipFields parse_simple (main_section roundtrip_body) =
     Some \<lparr>eligibility = [''GPA 3.0'', ''Resident''], amount = ''$1,000'',
           renewable = \<lparr>isRenewable = False, details = []\<rparr>,
           deadline = ''March 1'', requirements = [],
           description = ''<p>Intro text.<br></p>''\<rparr>
   \<and> contains ''Intro text.'' ''<p>Intro text.<br></p>''"
  by code_simp


section \<open>Structured field parser: the deadline\<close>

lemma cut_at_Some:
  "cut_at P s = Some a \<Longrightarrow> \<exists>b. s = a @ b \<and> P b"
proof (induction s arbitrary: a)
  case Nil
  then show ?case by (auto split: if_splits)
next
  case (Cons c r)
  show ?case
  proof (cases "P (c # r)")
    case True
    with Cons.prems show ?thesis by simp
  next
    case False
    with Cons.prems obtain a' where a': "cut_at P r = Some a'" and a: "a = c # a'" by auto
    from Cons.IH[OF a'] obtain b where "r = a' @ b" and "P b" by blast
    then show ?thesis using a by auto
  qed
qed

lemma cut_at_None:
  "cut_at P s = None \<Longrightarrow> s = a @ b \<Longrightarrow> \<not> P b"
proof (induction s arbitrary: a)
  case Nil
  then show ?case by (auto split: if_splits)
next
  case (Cons c r)
  from Cons.prems(1) have np: "\<not> P (c # r)" and r: "cut_at P r = None"
    by (auto split: if_splits)
  show ?case
  proof (cases a)
    case Nil
    with Cons.prems(2) np show ?thesis by simp
  next
    case (Cons x a')
    with Cons.prems(2) have "r = a' @ b" by simp
    from Cons.IH[OF r this] show ?thesis .
  qed
qed

lemma strip_trailing_label_cases:
  "(\<exists>b. s = strip_trailing_label labels s @ b \<and> label_tail labels b)
   \<or> (strip_trailing_label labels s = s \<and> (\<forall>a b. s = a @ b \<longrightarrow> \<not> label_tail labels b))"
proof (cases "cut_at (label_tail labels) s")
  case None
  then show ?thesis using cut_at_None[OF None] by (auto simp: strip_trailing_label_def)
next
  case (Some a)
  from cut_at_Some[OF Some] show ?thesis using Some by (auto simp: strip_trailing_label_def)
qed

lemma last_after_None: "pat \<noteq> [] \<Longrightarrow> (last_after pat s = None) = (\<not> contains pat s)"
  by (induction s) (auto split: option.splits)

lemma last_after_append:
  "last_after pat s = Some t \<Longrightarrow> last_after pat (pre @ s) = Some t"
  by (induction pre) (auto split: option.splits)

lemma last_after_here:
  "last_after pat r = None \<Longrightarrow> prefix pat (c # r)
   \<Longrightarrow> last_after pat (c # r) = Some (drop (length pat) (c # r))"
  by simp

lemma last_after_deadline:
  assumes "\<not> contains ''Deadline:'' post"
  shows "last_after ''Deadline:'' (pre @ ''Deadline:'' @ post) = Some post"
proof -
  have ne: "''Deadline:'' \<noteq> []" by simp
  have nc: "\<not> contains ''Deadline:'' (''eadline:'' @ post)"
    using assms by simp
  have none: "last_after ''Deadline:'' (''eadline:'' @ post) = None"
    using nc last_after_None[OF ne, of "''eadline:'' @ post"] by blast
  have pre: "prefix ''Deadline:'' (CHR ''D'' # (''eadline:'' @ post))" by simp
  have "last_after ''Deadline:'' (CHR ''D'' # (''eadline:'' @ post))
          = Some (drop (length ''Deadline:'') (CHR ''D'' # (''eadline:'' @ post)))"
    using none pre by (rule last_after_here)
  then have "last_after ''Deadline:'' (''Deadline:'' @ post) = Some post"
    by simp
  then show ?thesis by (rule last_after_append)
qed

text \<open>
  C7, amended. When the text of the scanned paragraph holds "Deadline:", the recovered
  text is what follows the last occurrence, trimmed, with the trailing run that the
  expression \<open>\s*(Requirements|Apply|Amount|Renewable|Eligibility):?\s*$\<close> matches cut
  off, if there is one. It becomes the deadline when it is not empty and does not begin
  with "Requirements:" or "Apply:"; otherwise the text of the next paragraph is used,
  unless that begins with one of the five labels or there is no next paragraph, and then
  the deadline stays as it was.
\<close>

theorem deadline_after_last_label:
  assumes "fullText = pre @ ''Deadline:'' @ post" and "\<not> contains ''Deadline:'' post"
  shows "deadline_text fullText = trim (strip_trailing_label deadline_scrub (trim post))
         \<and> ((\<exists>cut. trim post = strip_trailing_label deadline_scrub (trim post) @ cut
                   \<and> label_tail deadline_scrub cut)
             \<or> (strip_trailing_label deadline_scrub (trim post) = trim post
                 \<and> (\<forall>a b. trim post = a @ b \<longrightarrow> \<not> label_tail deadline_scrub b)))
         \<and> (deadline_text fullText \<noteq> []
               \<and> \<not> starts_with_label [''Requirements'', ''Apply''] (deadline_text fullText)
             \<longrightarrow> deadline_choice (deadline_text fullText) nextP old = deadline_text fullText)
         \<and> (deadline_text fullText = []
               \<or> starts_with_label [''Requirements'', ''Apply''] (deadline_text fullText)
             \<longrightarrow> deadline_choice (deadline_text fullText) nextP old
                 = (case nextP of
                      None \<Rightarrow> old
                    | Some np \<Rightarrow>
                        if starts_with_label deadline_scrub (trim (node_text np)) then old
                        else trim (node_text np)))
         \<and> (strong_label (fst self) = ''deadline'' \<and> closest [''p''] (self # up) = Some parent
               \<and> trim (node_text (fst parent)) = fullText
             \<longrightarrow> deadline (field_step (self # up) result)
                 = deadline_choice (deadline_text fullText) (next_first [''p''] (Some parent))
                     (deadline result))"
proof -
  have la: "last_after ''Deadline:'' fullText = Some post"
    unfolding assms(1) using assms(2) by (rule last_after_deadline)
  have a: "deadline_text fullText = trim (strip_trailing_label deadline_scrub (trim post))"
    by (simp add: deadline_text_def la)
  have b: "(\<exists>cut. trim post = strip_trailing_label deadline_scrub (trim post) @ cut
                   \<and> label_tail deadline_scrub cut)
             \<or> (strip_trailing_label deadline_scrub (trim post) = trim post
                 \<and> (\<forall>a b. trim post = a @ b \<longrightarrow> \<not> label_tail deadline_scrub b))"
    by (rule strip_trailing_label_cases)
  have c: "deadline_text fullText \<noteq> []
               \<and> \<not> starts_with_label [''Requirements'', ''Apply''] (deadline_text fullText)
             \<longrightarrow> deadline_choice (deadline_text fullText) nextP old = deadline_text fullText"
    by (simp add: deadline_choice_def)
  have d: "deadline_text fullText = []
               \<or> starts_with_label [''Requirements'', ''Apply''] (deadline_text fullText)
             \<longrightarrow> deadline_choice (deadline_text fullText) nextP old
                 = (case nextP of
                      None \<Rightarrow> old
                    | Some np \<Rightarrow>
                        if starts_with_label deadline_scrub (trim (node_text np)) then old
                        else trim (node_text np))"
    by (auto simp: deadline_choice_def Let_def split: option.splits)
  have e: "strong_label (fst self) = ''deadline'' \<and> closest [''p''] (self # up) = Some parent
               \<and> trim (node_text (fst parent)) = fullText
             \<longrightarrow> deadline (field_step (self # up) result)
                 = deadline_choice (deadline_text fullText) (next_first [''p''] (Some parent))
                     (deadline result)"
    by (simp add: field_step_def Let_def)
  from a b c d e show ?thesis by blast
qed

theorem deadline_after_last_label_witness:
  "deadline_text ''Renewable: No Deadline: x Deadline: March 1 Requirements:'' = ''March 1''
   \<and> deadline_choice ''March 1'' None [] = ''March 1''"
proof -
  have f: "''Renewable: No Deadline: x Deadline: March 1 Requirements:''
             = ''Renewable: No Deadline: x '' @ ''Deadline:'' @ '' March 1 Requirements:''"
    by simp
  have n: "\<not> contains ''Deadline:'' '' March 1 Requirements:''"
    by code_simp
  have v: "trim (strip_trailing_label deadline_scrub (trim '' March 1 Requirements:'')) = ''March 1''"
    by code_simp
  have g: "''March 1'' \<noteq> [] \<and> \<not> starts_with_label [''Requirements'', ''Apply''] ''March 1''"
    by code_simp
  note th = deadline_after_last_label[OF f n, of None "[]"]
  have t: "deadline_text ''Renewable: No Deadline: x Deadline: March 1 Requirements:'' = ''March 1''"
    using th[THEN conjunct1] v by (rule trans)
  have "deadline_choice (deadline_text ''Renewable: No Deadline: x Deadline: March 1 Requirements:'')
          None [] = deadline_text ''Renewable: No Deadline: x Deadline: March 1 Requirements:''"
    using th[THEN conjunct2, THEN conjunct2, THEN conjunct1] g unfolding t by (rule mp)
  then have "deadline_choice ''March 1'' None [] = ''March 1''"
    unfolding t .
  with t show ?thesis by (rule conjI)
qed

text \<open>
  C7, as the specification states it, fails. In the first body the label occurs twice in
  the paragraph and nothing follows its last occurrence, yet the deadline is the text of
  the next paragraph. In the second body two labels trail the date and only the last one
  is cut off.
\<close>

theorem deadline_fallback_counterexample:
  "map_option deadline (parseScholarshipFields parse_simple (main_section
      ''<p>Deadline: rolling. <strong>Deadline:</strong></p><p>See the form</p>''))
     = Some ''See the form''
   \<and> last_after ''Deadline:'' ''Deadline: rolling. Deadline:'' = Some []
   \<and> map_option deadline (parseScholarshipFields parse_simple (main_section
      ''<p>Deadline: old <strong>Deadline:</strong> March 1 Amount: Renewable:</p>''))
     = Some ''March 1 Amount:''"
  by code_simp


end
